theory Spec2Isabelle
  imports Complex_Main "HOL-Library.Word"
begin

section \<open>Browser collaborators\<close>

text \<open>
  The two components talk to the browser through a handful of calls: media tracks are
  stopped, a camera stream is requested, an HTTP request is sent, a message is logged, a
  detection pass is started, an animation frame is requested or cancelled. Each function of
  the model returns the new component state together with the list of such calls it made,
  in program order. An asynchronous function is split at its \<open>await\<close>: the part before it
  (\<open>_begin\<close>) and the part that runs once the awaited promise has settled (\<open>_settle\<close>), which
  takes the outcome as an argument.
\<close>

type_synonym track = nat

datatype media_stream = MediaStream (getTracks: "track list")

datatype effect =
    StopTrack track
  | GetUserMedia nat nat
  | Fetch string string
  | ConsoleError string
  | ConsoleLog string
  | LoadModels string
  | DetectSingleFace
  | RequestAnimationFrame
  | CancelAnimationFrame

text \<open>What \<open>navigator.mediaDevices.getUserMedia\<close> settles to.\<close>

datatype gum_result = Granted media_stream | Denied

text \<open>
  The two bodies the endpoint \<open>/api/save-image\<close> of this repository answers with, and what
  \<open>fetch\<close> followed by \<open>response.json()\<close> settles to: a body, or a rejection.
\<close>

datatype save_response = SaveOk string | SaveFailed string

datatype fetch_outcome = Responded save_response | FetchThrew

text \<open>
  What has been painted on a canvas since it was last reset: a video frame scaled to a
  size, the box of a detection resized to the given dimensions, a stroked or filled text
  at a position.
\<close>

record face_box =
  box_x :: real
  box_y :: real
  box_width :: real
  box_height :: real

datatype drawing =
    VideoFrame nat nat
  | DetectionBox face_box nat nat
  | StrokeText string real real
  | FillText string real real

record video =
  srcObject :: "media_stream option"
  videoWidth :: nat
  videoHeight :: nat

text \<open>
  A canvas element. Assigning \<open>width\<close> or \<open>height\<close> resets the bitmap; \<open>has2d\<close> says
  whether \<open>getContext("2d")\<close> returns a context.
\<close>

record canvas =
  width :: nat
  height :: nat
  content :: "drawing list"
  has2d :: bool

definition setSize :: "nat \<Rightarrow> nat \<Rightarrow> canvas \<Rightarrow> canvas" where
  "setSize w h c = c\<lparr>width := w, height := h, content := []\<rparr>"

text \<open>JavaScript truthiness of a \<open>string | null\<close>: \<open>null\<close> and the empty string are falsy.\<close>

definition truthy :: "string option \<Rightarrow> bool" where
  "truthy v = (case v of None \<Rightarrow> False | Some t \<Rightarrow> t \<noteq> [])"

section \<open>The WebcamCapture component\<close>

text \<open>The refs and the stream state, which both components declare.\<close>

record component =
  videoRef :: "video option"
  canvasRef :: "canvas option"
  stream :: "media_stream option"

record webcam_capture = component +
  capturedImage :: "string option"
  isSaving :: bool
  savedFileName :: "string option"

text \<open>\<open>if (stream) stream.getTracks().forEach((track) => track.stop())\<close>\<close>

definition stopTracks :: "media_stream option \<Rightarrow> effect list" where
  "stopTracks st = (case st of None \<Rightarrow> [] | Some m \<Rightarrow> map StopTrack (getTracks m))"

subsection \<open>savePhoto\<close>

text \<open>
  Up to the \<open>await fetch\<close>: \<open>None\<close> is the early return of the safety check, otherwise
  \<open>isSaving\<close> is set and the request is sent.
\<close>

definition savePhoto_begin :: "webcam_capture \<Rightarrow> (webcam_capture \<times> effect list) option" where
  "savePhoto_begin s =
     (case capturedImage s of
        None \<Rightarrow> None
      | Some img \<Rightarrow>
          if img = [] then None
          else Some (s\<lparr>isSaving := True\<rparr>, [Fetch ''/api/save-image'' img]))"

text \<open>After the \<open>await\<close>: the three branches of the \<open>try\<close>, each followed by \<open>finally\<close>.\<close>

definition savePhoto_settle :: "fetch_outcome \<Rightarrow> webcam_capture \<Rightarrow> webcam_capture \<times> effect list" where
  "savePhoto_settle out s =
     (case out of
        Responded (SaveOk fileName) \<Rightarrow>
          (s\<lparr>savedFileName := Some fileName, isSaving := False\<rparr>, [])
      | Responded (SaveFailed err) \<Rightarrow>
          (s\<lparr>isSaving := False\<rparr>, [ConsoleError ''Failed to save image''])
      | FetchThrew \<Rightarrow>
          (s\<lparr>isSaving := False\<rparr>, [ConsoleError ''Error saving image:'']))"

text \<open>The whole call, when nothing else happens between the request and its outcome.\<close>

definition savePhoto :: "fetch_outcome \<Rightarrow> webcam_capture \<Rightarrow> webcam_capture \<times> effect list" where
  "savePhoto out s =
     (case savePhoto_begin s of
        None \<Rightarrow> (s, [])
      | Some (s1, e1) \<Rightarrow> (case savePhoto_settle out s1 of (s2, e2) \<Rightarrow> (s2, e1 @ e2)))"

text \<open>
  The save button of the review mode: rendered only when \<open>capturedImage\<close> is truthy,
  \<open>disabled={isSaving || savedFileName !== null}\<close>, \<open>onClick={savePhoto}\<close>. A click on a
  button that is disabled or not rendered runs no handler.
\<close>

definition reviewMode :: "webcam_capture \<Rightarrow> bool" where
  "reviewMode s = truthy (capturedImage s)"

definition saveDisabled :: "webcam_capture \<Rightarrow> bool" where
  "saveDisabled s = (isSaving s \<or> savedFileName s \<noteq> None)"

definition clickSave_begin :: "webcam_capture \<Rightarrow> (webcam_capture \<times> effect list) option" where
  "clickSave_begin s = (if reviewMode s \<and> \<not> saveDisabled s then savePhoto_begin s else None)"

definition clickSave :: "fetch_outcome \<Rightarrow> webcam_capture \<Rightarrow> webcam_capture \<times> effect list" where
  "clickSave out s = (if reviewMode s \<and> \<not> saveDisabled s then savePhoto out s else (s, []))"

subsection \<open>capturePhoto\<close>

text \<open>
  \<open>toDataURL\<close> is the browser's PNG encoder, \<open>canvas.toDataURL("image/png")\<close>: it is a
  parameter. The two size assignments reset the bitmap, \<open>drawImage\<close> paints the current
  frame scaled to the canvas, and the state keeps the encoding of that canvas.
\<close>

definition capturePhoto :: "(canvas \<Rightarrow> string) \<Rightarrow> webcam_capture \<Rightarrow> webcam_capture" where
  "capturePhoto toDataURL s =
     (case (videoRef s, canvasRef s) of
        (Some v, Some c) \<Rightarrow>
          (let c1 = setSize (videoWidth v) (videoHeight v) c in
           if has2d c1 then
             (let c2 = c1\<lparr>content := content c1 @ [VideoFrame (width c1) (height c1)]\<rparr>;
                  imageDataUrl = toDataURL c2
              in s\<lparr>canvasRef := Some c2, capturedImage := Some imageDataUrl,
                     savedFileName := None\<rparr>)
           else s\<lparr>canvasRef := Some c1\<rparr>)
      | _ \<Rightarrow> s)"

subsection \<open>startVideo, retake, mount and unmount\<close>

text \<open>
  \<open>startVideo\<close> up to \<open>await getUserMedia\<close>: the tracks of the stream in the state are
  stopped, then the camera is requested.
\<close>

definition startVideo_begin :: "webcam_capture \<Rightarrow> effect list" where
  "startVideo_begin s = stopTracks (stream s) @ [GetUserMedia 640 480]"

definition startVideo_settle :: "gum_result \<Rightarrow> webcam_capture \<Rightarrow> webcam_capture \<times> effect list" where
  "startVideo_settle r s =
     (case r of
        Granted newStream \<Rightarrow>
          (case videoRef s of
             None \<Rightarrow> (s, [])
           | Some v \<Rightarrow> (s\<lparr>videoRef := Some (v\<lparr>srcObject := Some newStream\<rparr>),
                           stream := Some newStream\<rparr>, []))
      | Denied \<Rightarrow> (s, [ConsoleError ''Error accessing webcam:'']))"

definition retake_begin :: "webcam_capture \<Rightarrow> webcam_capture \<times> effect list" where
  "retake_begin s = (s\<lparr>capturedImage := None, savedFileName := None\<rparr>, startVideo_begin s)"

text \<open>The first render: every \<open>useState\<close> at its initial value, the refs attached.\<close>

definition firstRender :: "video \<Rightarrow> canvas \<Rightarrow> webcam_capture" where
  "firstRender v c =
     \<lparr>videoRef = Some v, canvasRef = Some c, stream = None,
      capturedImage = None, isSaving = False, savedFileName = None\<rparr>"

text \<open>
  The effect \<open>useEffect(() => { startVideo(); return () => {...} }, [])\<close> has an empty
  dependency array: it runs once, after the first render, and the cleanup it returns is the
  one React calls at unmount. That cleanup is a closure of the first render: the \<open>stream\<close>
  it tests is the constant \<open>stream\<close> of that render, whatever \<open>setStream\<close> stored later.
\<close>

definition mountCleanup :: "webcam_capture \<Rightarrow> effect list" where
  "mountCleanup rendered = stopTracks (stream rendered)"

subsection \<open>The page as a sequence of events\<close>

text \<open>
  What the JSX renders decides which elements the refs hold: the \<open>video\<close> element is in
  the tree only while \<open>capturedImage\<close> is falsy, and it is a new element each time the
  page comes back from the review mode.
\<close>

definition render :: "webcam_capture \<Rightarrow> webcam_capture" where
  "render s =
     (if truthy (capturedImage s) then s\<lparr>videoRef := None\<rparr>
      else (case videoRef s of
              None \<Rightarrow> s\<lparr>videoRef := Some \<lparr>srcObject = None, videoWidth = 0, videoHeight = 0\<rparr>\<rparr>
            | Some v \<Rightarrow> s))"

text \<open>
  The mounted page: the component state, and how many \<open>fetch\<close> and \<open>getUserMedia\<close>
  promises have not settled yet. The events are the clicks on the three buttons (a button
  that is not rendered or is disabled takes no click), the settling of a promise, and the
  video element learning the size of its stream.
\<close>

record page =
  ui :: webcam_capture
  unsettledSaves :: nat
  unsettledCameras :: nat

datatype wc_event =
    ClickTakePhoto
  | ClickSave
  | SaveSettles fetch_outcome
  | ClickRetake
  | CameraSettles gum_result
  | VideoResizes nat nat

text \<open>Running one piece of code after another: the calls are appended.\<close>

definition andThen :: "'s \<times> effect list \<Rightarrow> ('s \<Rightarrow> 's \<times> effect list) \<Rightarrow> 's \<times> effect list" where
  "andThen p f = (case p of (s, es) \<Rightarrow> (case f s of (s', es') \<Rightarrow> (s', es @ es')))"

definition wc_mount :: "video \<Rightarrow> canvas \<Rightarrow> page \<times> effect list" where
  "wc_mount v c =
     (\<lparr>ui = firstRender v c, unsettledSaves = 0, unsettledCameras = 1\<rparr>,
      startVideo_begin (firstRender v c))"

fun wc_step :: "(canvas \<Rightarrow> string) \<Rightarrow> wc_event \<Rightarrow> page \<Rightarrow> page \<times> effect list" where
  "wc_step toDataURL ClickTakePhoto p =
     (if reviewMode (ui p) then (p, [])
      else (p\<lparr>ui := render (capturePhoto toDataURL (ui p))\<rparr>, []))"
| "wc_step toDataURL ClickSave p =
     (case clickSave_begin (ui p) of
        None \<Rightarrow> (p, [])
      | Some (s, es) \<Rightarrow> (p\<lparr>ui := render s, unsettledSaves := Suc (unsettledSaves p)\<rparr>, es))"
| "wc_step toDataURL (SaveSettles out) p =
     (if unsettledSaves p = 0 then (p, [])
      else (case savePhoto_settle out (ui p) of
              (s, es) \<Rightarrow> (p\<lparr>ui := render s, unsettledSaves := unsettledSaves p - 1\<rparr>, es)))"
| "wc_step toDataURL ClickRetake p =
     (if \<not> reviewMode (ui p) then (p, [])
      else (case retake_begin (ui p) of
              (s, es) \<Rightarrow> (p\<lparr>ui := render s, unsettledCameras := Suc (unsettledCameras p)\<rparr>, es)))"
| "wc_step toDataURL (CameraSettles r) p =
     (if unsettledCameras p = 0 then (p, [])
      else (case startVideo_settle r (ui p) of
              (s, es) \<Rightarrow> (p\<lparr>ui := render s, unsettledCameras := unsettledCameras p - 1\<rparr>, es)))"
| "wc_step toDataURL (VideoResizes w h) p =
     (case videoRef (ui p) of
        None \<Rightarrow> (p, [])
      | Some v \<Rightarrow>
          if srcObject v = None then (p, [])
          else (p\<lparr>ui := (ui p)\<lparr>videoRef := Some (v\<lparr>videoWidth := w, videoHeight := h\<rparr>)\<rparr>\<rparr>, []))"

fun wc_run :: "(canvas \<Rightarrow> string) \<Rightarrow> wc_event list \<Rightarrow> page \<times> effect list \<Rightarrow> page \<times> effect list" where
  "wc_run toDataURL [] p = p"
| "wc_run toDataURL (e # es) p = wc_run toDataURL es (andThen p (wc_step toDataURL e))"

text \<open>
  A whole visit: mount, the events, unmount. At unmount React calls the cleanup of the
  mount effect, which is the closure of the first render.
\<close>

definition wc_visit :: "(canvas \<Rightarrow> string) \<Rightarrow> video \<Rightarrow> canvas \<Rightarrow> wc_event list \<Rightarrow> page \<times> effect list" where
  "wc_visit toDataURL v c events =
     (case wc_run toDataURL events (wc_mount v c) of
        (p, es) \<Rightarrow> (p, es @ mountCleanup (firstRender v c)))"

text \<open>
  What holds of the saving flag after every event: a save request is unsettled exactly
  while \<open>isSaving\<close> is set, there is never more than that one, and no file name is shown
  while it is unsettled.
\<close>

definition saves_inv :: "page \<times> effect list \<Rightarrow> bool" where
  "saves_inv p =
     (unsettledSaves (fst p) = (if isSaving (ui (fst p)) then 1 else 0)
      \<and> (isSaving (ui (fst p)) \<longrightarrow> savedFileName (ui (fst p)) = None))"

section \<open>The endpoint /api/save-image\<close>

type_synonym byte = "8 word"

definition hexDigit :: "nat \<Rightarrow> char" where
  "hexDigit n = ''0123456789abcdef'' ! (n mod 16)"

definition hexByte :: "byte \<Rightarrow> string" where
  "hexByte b = [hexDigit (unat b div 16), hexDigit (unat b mod 16)]"

text \<open>\<open>buffer.toString("hex")\<close>\<close>

definition toHex :: "byte list \<Rightarrow> string" where
  "toHex bs = concat (map hexByte bs)"

text \<open>The class \<open>\w\<close> of a regular expression without the unicode flag: \<open>[A-Za-z0-9_]\<close>.\<close>

definition wordChar :: "char \<Rightarrow> bool" where
  "wordChar ch =
     (let n = (of_char ch :: nat)
      in (65 \<le> n \<and> n \<le> 90) \<or> (97 \<le> n \<and> n \<le> 122) \<or> (48 \<le> n \<and> n \<le> 57) \<or> n = 95)"

text \<open>
  \<open>image.replace(/^data:image\/\w+;base64,/, "")\<close>. The expression is anchored at the start
  and \<open>;\<close> is no word character, so it matches exactly when the text \<open>data:image/\<close> is
  followed by a non-empty longest run of word characters and then by \<open>;base64,\<close>; the match
  is removed, and a string without a match comes back as it is.
\<close>

definition stripDataUrlPrefix :: "string \<Rightarrow> string" where
  "stripDataUrlPrefix img =
     (if take 11 img = ''data:image/'' then
        (let rest = drop 11 img;
             subtype = takeWhile wordChar rest;
             after = dropWhile wordChar rest
         in if subtype \<noteq> [] \<and> take 8 after = '';base64,'' then drop 8 after else img)
      else img)"

text \<open>
  \<open>join\<close> of Node's \<open>path\<close> module on a POSIX system: the non-empty arguments are joined
  by \<open>/\<close> and the result is normalised. Normalising drops empty and \<open>.\<close> segments,
  lets \<open>..\<close> remove the segment before it (at the root of an absolute path it is
  dropped, in a relative path it is kept), and keeps a leading and a trailing slash.
\<close>

fun splitOn :: "char \<Rightarrow> string \<Rightarrow> string list" where
  "splitOn sep [] = [[]]"
| "splitOn sep (ch # rest) =
     (if ch = sep then [] # splitOn sep rest
      else (case splitOn sep rest of
              [] \<Rightarrow> [[ch]]
            | seg # segs \<Rightarrow> (ch # seg) # segs))"

fun joinWith :: "string \<Rightarrow> string list \<Rightarrow> string" where
  "joinWith sep [] = []"
| "joinWith sep [x] = x"
| "joinWith sep (x # y # zs) = x @ sep @ joinWith sep (y # zs)"

fun normalizeString :: "bool \<Rightarrow> string list \<Rightarrow> string list \<Rightarrow> string list" where
  "normalizeString allowAboveRoot res [] = res"
| "normalizeString allowAboveRoot res (seg # segs) =
     (if seg = [] \<or> seg = ''.'' then normalizeString allowAboveRoot res segs
      else if seg = ''..'' then
        (if res \<noteq> [] \<and> last res \<noteq> ''..'' then normalizeString allowAboveRoot (butlast res) segs
         else if allowAboveRoot then normalizeString allowAboveRoot (res @ [''..'']) segs
         else normalizeString allowAboveRoot res segs)
      else normalizeString allowAboveRoot (res @ [seg]) segs)"

definition path_normalize :: "string \<Rightarrow> string" where
  "path_normalize path =
     (if path = [] then ''.''
      else
        (let isAbsolute = (hd path = CHR ''/'');
             trailingSeparator = (last path = CHR ''/'');
             body = joinWith ''/'' (normalizeString (\<not> isAbsolute) [] (splitOn CHR ''/'' path))
         in if body = [] then (if isAbsolute then ''/'' else if trailingSeparator then ''./'' else ''.'')
            else (if isAbsolute then ''/'' else []) @ body @ (if trailingSeparator then ''/'' else [])))"

definition path_join :: "string list \<Rightarrow> string" where
  "path_join parts =
     (let joined = joinWith ''/'' (filter (\<lambda>part. part \<noteq> []) parts)
      in if joined = [] then ''.'' else path_normalize joined)"


text \<open>
  An absolute normalised path, as \<open>process.cwd()\<close> returns it, written by its directory
  names: \<open>/\<close> when there is none. A name is clean when it is not empty, has no slash and is
  neither \<open>.\<close> nor \<open>..\<close>.
\<close>

definition clean :: "string \<Rightarrow> bool" where
  "clean seg = (seg \<noteq> [] \<and> CHR ''/'' \<notin> set seg \<and> seg \<noteq> ''.'' \<and> seg \<noteq> ''..'')"

definition absolute :: "string list \<Rightarrow> string" where
  "absolute dirs = (if dirs = [] then ''/'' else concat (map (\<lambda>d. CHR ''/'' # d) dirs))"

text \<open>
  What \<open>req.json()\<close> and \<open>const { image } = data\<close> give: a body that does not parse, a body
  whose \<open>image\<close> is missing or no string (\<open>image.replace\<close> then throws), or an image string.
\<close>

datatype request_body = Malformed | WithoutImage | WithImage string

datatype response_body = Success string | Failure string

record next_response =
  body :: response_body
  status :: nat

definition failed :: next_response where
  "failed = \<lparr>body = Failure ''Failed to save image'', status = 500\<rparr>"

text \<open>
  The handler. Its surroundings are arguments: \<open>fromBase64\<close> is Node's
  \<open>Buffer.from(_, "base64")\<close>, \<open>cwd\<close> is \<open>process.cwd()\<close>, \<open>randomBytes\<close> is what
  \<open>crypto.randomBytes(16)\<close> returned, \<open>diskOk\<close> says whether \<open>writeFile\<close> resolves, and
  the files are a map from paths to contents. Every exception ends in the \<open>catch\<close>.
\<close>

definition POST ::
  "(string \<Rightarrow> byte list) \<Rightarrow> string \<Rightarrow> byte list \<Rightarrow> bool \<Rightarrow> request_body
     \<Rightarrow> (string \<rightharpoonup> byte list) \<Rightarrow> next_response \<times> (string \<rightharpoonup> byte list)" where
  "POST fromBase64 cwd randomBytes diskOk req files =
     (case req of
        WithImage img \<Rightarrow>
          (let randomName = toHex randomBytes;
               fileName = randomName @ ''.png'';
               base64Data = stripDataUrlPrefix img;
               buffer = fromBase64 base64Data;
               publicPath = path_join [cwd, ''public'', ''captured-photos'']
           in if diskOk
              then (\<lparr>body = Success fileName, status = 200\<rparr>,
                    files(path_join [publicPath, fileName] \<mapsto> buffer))
              else (failed, files))
      | _ \<Rightarrow> (failed, files))"

section \<open>The FaceDetection component\<close>

subsection \<open>The label of the dominant expression\<close>

text \<open>\<open>Array.prototype.reduce\<close> without an initial value; on an empty array it throws.\<close>

fun reduce1 :: "('a \<Rightarrow> 'a \<Rightarrow> 'a) \<Rightarrow> 'a list \<Rightarrow> 'a option" where
  "reduce1 f [] = None"
| "reduce1 f (x # xs) = Some (foldl f x xs)"

text \<open>
  \<open>Object.entries(expressions).reduce((a, b) => a[1] > b[1] ? a : b)\<close>. The entries are the
  list, in iteration order. The comparison of two doubles is the comparison of the reals
  they denote.
\<close>

definition dominantExpression :: "(string \<times> real) list \<Rightarrow> (string \<times> real) option" where
  "dominantExpression entries = reduce1 (\<lambda>a b. if snd a > snd b then a else b) entries"

text \<open>
  JavaScript numbers are IEEE 754 binary64 values: a finite double is an integer of
  magnitude below \<open>2^53\<close> times a power of two not below \<open>2^-1074\<close>. The model takes a
  number as the real it denotes, and an arithmetic operation as the exact operation
  followed by rounding to the nearest double, a tie going to the even mantissa.
  \<open>exponent x\<close> is the exponent of the binade of a positive \<open>x\<close>, found by halving or
  doubling, and not below \<open>-1022\<close> (the subnormal range). Values of \<open>2^1024\<close> and more
  (which round to \<open>Infinity\<close>) and \<open>NaN\<close> are outside the model.
\<close>

definition pow2 :: "int \<Rightarrow> real" where
  "pow2 e = (if 0 \<le> e then 2 ^ nat e else 1 / 2 ^ nat (- e))"

fun halvings :: "nat \<Rightarrow> real \<Rightarrow> int" where
  "halvings n x = (if n = 0 \<or> x < 2 then 0 else 1 + halvings (n - 1) (x / 2))"

fun doublings :: "nat \<Rightarrow> real \<Rightarrow> int" where
  "doublings n x = (if n = 0 \<or> 1 \<le> x then 0 else doublings (n - 1) (2 * x) - 1)"

declare halvings.simps [simp del] doublings.simps [simp del]

definition exponent :: "real \<Rightarrow> int" where
  "exponent x = (if 1 \<le> x then halvings 1023 x else doublings 1022 x)"

definition roundTiesToEven :: "real \<Rightarrow> int" where
  "roundTiesToEven q =
     (let f = \<lfloor>q\<rfloor>; r = q - of_int f
      in if r < 1 / 2 then f else if 1 / 2 < r then f + 1 else if even f then f else f + 1)"

definition binary64 :: "real \<Rightarrow> real" where
  "binary64 x =
     (if x = 0 then 0
      else (let ulp = pow2 (exponent \<bar>x\<bar> - 52)
            in sgn x * of_int (roundTiesToEven (\<bar>x\<bar> / ulp)) * ulp))"

text \<open>\<open>Math.round\<close>, exact on a double: the nearest integer, a half rounded up.\<close>

definition Math_round :: "real \<Rightarrow> int" where
  "Math_round x = \<lfloor>x + 1 / 2\<rfloor>"

fun digits :: "nat \<Rightarrow> string" where
  "digits n = (if n < 10 then [''0123456789'' ! n] else digits (n div 10) @ [''0123456789'' ! (n mod 10)])"

declare digits.simps [simp del]

definition showInt :: "int \<Rightarrow> string" where
  "showInt i = (if i < 0 then ''-'' @ digits (nat (- i)) else digits (nat i))"

text \<open>
  The template \<open>`${dominantExpression[0]}: ${Math.round(dominantExpression[1] * 100)}%`\<close>.
  The product is the double product. An integer is printed in decimal digits, which is
  what the template does below \<open>10^21\<close>.
\<close>

definition expressionText :: "string \<times> real \<Rightarrow> string" where
  "expressionText dominant =
     fst dominant @ '': '' @ showInt (Math_round (binary64 (snd dominant * 100))) @ ''%''"

definition expressionLabel :: "(string \<times> real) list \<Rightarrow> string option" where
  "expressionLabel entries = map_option expressionText (dominantExpression entries)"

subsection \<open>State and events\<close>

record detection =
  box :: face_box
  expressions :: "(string \<times> real) list"

text \<open>
  Beside the three \<open>useState\<close> values and the refs, the state keeps what the
  asynchronous work of the component is waiting for: the model promise
  (\<open>modelsPending\<close>), the camera promise (\<open>cameraPending\<close>), the detection pass
  (\<open>detectionPending\<close>) and the requested animation frame (\<open>pendingFrame\<close>, with its
  handle). \<open>animationFrameId\<close> and \<open>closureIsVideoPlaying\<close> are the variable
  \<open>animationFrameId\<close> and the constant \<open>isVideoPlaying\<close> as the closure
  \<open>detectExpressions\<close> of the latest run of the loop effect sees them.
\<close>

record face_detection = component +
  modelsLoaded :: bool
  isVideoPlaying :: bool
  modelsPending :: bool
  cameraPending :: bool
  detectionPending :: bool
  pendingFrame :: "nat option"
  frameCount :: nat
  animationFrameId :: "nat option"
  closureIsVideoPlaying :: bool

subsection \<open>Model loading and the webcam effect\<close>

definition loadModels_begin :: "effect list" where
  "loadModels_begin = [ConsoleLog ''Starting to load models...'', LoadModels ''/models'']"

definition loadModels_settle :: "bool \<Rightarrow> face_detection \<Rightarrow> face_detection \<times> effect list" where
  "loadModels_settle loaded s =
     (if loaded then (s\<lparr>modelsLoaded := True\<rparr>, [ConsoleLog ''Models loaded successfully!''])
      else (s, [ConsoleError ''Error loading models:'']))"

text \<open>The effect with dependencies \<open>[modelsLoaded]\<close>, up to \<open>await getUserMedia\<close>.\<close>

definition webcamEffect :: "face_detection \<Rightarrow> face_detection \<times> effect list" where
  "webcamEffect s =
     (if modelsLoaded s
      then (s\<lparr>cameraPending := True\<rparr>, [ConsoleLog ''Starting video...'', GetUserMedia 640 480])
      else (s, []))"

definition fd_startVideo_settle :: "gum_result \<Rightarrow> face_detection \<Rightarrow> face_detection \<times> effect list" where
  "fd_startVideo_settle r s =
     (case r of
        Granted newStream \<Rightarrow>
          (case videoRef s of
             None \<Rightarrow> (s, [])
           | Some v \<Rightarrow> (s\<lparr>videoRef := Some (v\<lparr>srcObject := Some newStream\<rparr>),
                           stream := Some newStream\<rparr>,
                         [ConsoleLog ''Video stream set successfully!'']))
      | Denied \<Rightarrow> (s, [ConsoleError ''Error accessing webcam:'']))"

subsection \<open>handleVideoPlay\<close>

text \<open>\<open>n || d\<close> on numbers: zero is falsy.\<close>

definition orDefault :: "nat \<Rightarrow> nat \<Rightarrow> nat" where
  "orDefault n d = (if n = 0 then d else n)"

definition handleVideoPlay :: "face_detection \<Rightarrow> face_detection \<times> effect list" where
  "handleVideoPlay s =
     (s\<lparr>canvasRef :=
          (case canvasRef s of
             None \<Rightarrow> None
           | Some c \<Rightarrow>
               Some (setSize
                 (case videoRef s of None \<Rightarrow> 640 | Some v \<Rightarrow> orDefault (videoWidth v) 640)
                 (case videoRef s of None \<Rightarrow> 480 | Some v \<Rightarrow> orDefault (videoHeight v) 480) c)),
        isVideoPlaying := True\<rparr>,
      [ConsoleLog ''Video started playing''])"

subsection \<open>detectExpressions\<close>

text \<open>Up to the \<open>await\<close> of the detection pass.\<close>

definition detectExpressions_begin :: "face_detection \<Rightarrow> face_detection \<times> effect list" where
  "detectExpressions_begin s =
     (if videoRef s = None \<or> canvasRef s = None \<or> \<not> closureIsVideoPlaying s
      then (s, [ConsoleLog ''Video or canvas not ready, or video not playing''])
      else (s\<lparr>detectionPending := True\<rparr>, [ConsoleLog ''Starting detection...'', DetectSingleFace]))"

text \<open>
  The branch \<open>if (detection)\<close> once the context is there: \<open>clearRect\<close> over the whole
  canvas, \<open>matchDimensions(canvas, video, true)\<close> (which assigns the video's dimensions to
  the canvas), \<open>resizeResults\<close> and the box, then the text, centred with the measured width
  (\<open>measureText\<close>, a parameter) at height 50. Two calls can throw, and what was painted
  until then stays: \<open>resizeResults\<close> when the video has a zero width or height, and
  \<open>reduce\<close> on an empty list of entries.
\<close>

datatype painting = Painted | ResizeThrew | ReduceThrew

definition paintDetection :: "(string \<Rightarrow> real) \<Rightarrow> video \<Rightarrow> detection \<Rightarrow> canvas \<Rightarrow> canvas \<times> painting" where
  "paintDetection measureText v d c =
     (let c1 = c\<lparr>content := []\<rparr>;
          c2 = setSize (videoWidth v) (videoHeight v) c1
      in if videoWidth v = 0 \<or> videoHeight v = 0 then (c2, ResizeThrew)
         else
           (let c3 = c2\<lparr>content := content c2 @ [DetectionBox (box d) (width c2) (height c2)]\<rparr>
            in case dominantExpression (expressions d) of
                 None \<Rightarrow> (c3, ReduceThrew)
               | Some dominant \<Rightarrow>
                   (let text = expressionText dominant;
                        x = (real (width c3) - measureText text) / 2
                    in (c3\<lparr>content := content c3 @ [StrokeText text x 50, FillText text x 50]\<rparr>,
                        Painted))))"

text \<open>\<open>animationFrameId = requestAnimationFrame(detectExpressions)\<close>: handles are positive.\<close>

definition requestNext :: "face_detection \<Rightarrow> face_detection \<times> effect list" where
  "requestNext s =
     (s\<lparr>pendingFrame := Some (Suc (frameCount s)), frameCount := Suc (frameCount s),
        animationFrameId := Some (Suc (frameCount s))\<rparr>, [RequestAnimationFrame])"

text \<open>
  After the \<open>await\<close>, with the result of the pass. The elements are the ones read before
  the \<open>await\<close>; the component stays mounted, so they are the ones the refs hold. Without a
  context, and when a call throws, the function ends before it requests the next frame.
\<close>

definition detectExpressions_settle ::
  "(string \<Rightarrow> real) \<Rightarrow> detection option \<Rightarrow> face_detection \<Rightarrow> face_detection \<times> effect list" where
  "detectExpressions_settle measureText result s0 =
     (let s = s0\<lparr>detectionPending := False\<rparr> in
      case result of
        None \<Rightarrow> andThen (s, [ConsoleLog ''No face detected'']) requestNext
      | Some d \<Rightarrow>
          (case (videoRef s, canvasRef s) of
             (Some v, Some c) \<Rightarrow>
               if \<not> has2d c then (s, [ConsoleLog ''Face detected!''])
               else
                 (case paintDetection measureText v d c of
                    (c', Painted) \<Rightarrow>
                      andThen (s\<lparr>canvasRef := Some c'\<rparr>,
                               [ConsoleLog ''Face detected!'', ConsoleLog ''All expressions:'',
                                ConsoleLog ''Dominant expression:'']) requestNext
                  | (c', ResizeThrew) \<Rightarrow>
                      (s\<lparr>canvasRef := Some c'\<rparr>, [ConsoleLog ''Face detected!''])
                  | (c', ReduceThrew) \<Rightarrow>
                      (s\<lparr>canvasRef := Some c'\<rparr>,
                       [ConsoleLog ''Face detected!'', ConsoleLog ''All expressions:'']))
           | _ \<Rightarrow> (s, [])))"

subsection \<open>The loop effect\<close>

text \<open>
  The effect with dependencies \<open>[modelsLoaded, isVideoPlaying]\<close>. Its cleanup cancels the
  frame whose handle the variable holds. A run creates a new closure, with the variable
  undefined and the \<open>isVideoPlaying\<close> of the render, and starts the loop when both flags
  are true.
\<close>

definition loopCleanup :: "face_detection \<Rightarrow> face_detection \<times> effect list" where
  "loopCleanup s =
     (case animationFrameId s of
        None \<Rightarrow> (s, [])
      | Some i \<Rightarrow>
          (s\<lparr>pendingFrame := (if pendingFrame s = Some i then None else pendingFrame s)\<rparr>,
           [CancelAnimationFrame]))"

definition loopEffect :: "face_detection \<Rightarrow> face_detection \<times> effect list" where
  "loopEffect s =
     (let s1 = s\<lparr>animationFrameId := None, closureIsVideoPlaying := isVideoPlaying s\<rparr> in
      if modelsLoaded s1 \<and> isVideoPlaying s1
      then andThen (s1, [ConsoleLog ''Starting detection loop'']) detectExpressions_begin
      else (s1, []))"

subsection \<open>Mounting and the events of a mounted component\<close>

definition fd_firstRender :: "video \<Rightarrow> canvas \<Rightarrow> face_detection" where
  "fd_firstRender v c =
     \<lparr>videoRef = Some v, canvasRef = Some c, stream = None,
      modelsLoaded = False, isVideoPlaying = False,
      modelsPending = True, cameraPending = False, detectionPending = False,
      pendingFrame = None, frameCount = 0, animationFrameId = None,
      closureIsVideoPlaying = False\<rparr>"

text \<open>The three effects after the first render, in the order they are declared.\<close>

definition fd_mount :: "video \<Rightarrow> canvas \<Rightarrow> face_detection \<times> effect list" where
  "fd_mount v c =
     andThen (andThen (fd_firstRender v c, loadModels_begin) webcamEffect) loopEffect"

text \<open>
  What can happen to the mounted component: the model promise settles (loaded or not),
  the camera promise settles, the video element fires \<open>play\<close>, the detection pass returns,
  the browser runs the requested animation frame. An event nothing is waiting for changes
  nothing. After a state change React renders again and runs the effects whose
  dependencies changed, cleanups first; setting a state to the value it has renders
  nothing.
\<close>

datatype fd_event =
    ModelsSettle bool
  | CameraSettle gum_result
  | VideoPlays
  | DetectionSettles "detection option"
  | AnimationFrame

fun fd_step :: "(string \<Rightarrow> real) \<Rightarrow> fd_event \<Rightarrow> face_detection \<Rightarrow> face_detection \<times> effect list" where
  "fd_step m (ModelsSettle loaded) s =
     (if \<not> modelsPending s then (s, [])
      else andThen (loadModels_settle loaded (s\<lparr>modelsPending := False\<rparr>))
             (\<lambda>s1. if modelsLoaded s1 = modelsLoaded s then (s1, [])
                    else andThen (andThen (loopCleanup s1) webcamEffect) loopEffect))"
| "fd_step m (CameraSettle r) s =
     (if \<not> cameraPending s then (s, [])
      else fd_startVideo_settle r (s\<lparr>cameraPending := False\<rparr>))"
| "fd_step m VideoPlays s =
     andThen (handleVideoPlay s)
       (\<lambda>s1. if isVideoPlaying s1 = isVideoPlaying s then (s1, [])
              else andThen (loopCleanup s1) loopEffect)"
| "fd_step m (DetectionSettles result) s =
     (if \<not> detectionPending s then (s, [])
      else detectExpressions_settle m result s)"
| "fd_step m AnimationFrame s =
     (case pendingFrame s of
        None \<Rightarrow> (s, [])
      | Some i \<Rightarrow> detectExpressions_begin (s\<lparr>pendingFrame := None\<rparr>))"

fun fd_run :: "(string \<Rightarrow> real) \<Rightarrow> fd_event list \<Rightarrow> face_detection \<times> effect list \<Rightarrow> face_detection \<times> effect list" where
  "fd_run m [] p = p"
| "fd_run m (e # es) p = fd_run m es (andThen p (fd_step m e))"

subsection \<open>The order of calls in a trace\<close>

text \<open>
  Every \<open>later\<close> in a trace comes after a \<open>first\<close>: read from the left, \<open>first\<close> is met
  before any \<open>later\<close>.
\<close>

fun precededBy :: "effect \<Rightarrow> effect \<Rightarrow> effect list \<Rightarrow> bool" where
  "precededBy first later [] = True"
| "precededBy first later (x # xs) = (x = first \<or> (x \<noteq> later \<and> precededBy first later xs))"

text \<open>
  The two messages that mark, in the trace, that the models are loaded (logged by
  \<open>loadModels\<close> right before \<open>setModelsLoaded(true)\<close>) and that the video element reported
  playback (logged by \<open>handleVideoPlay\<close>).
\<close>

definition modelsLoadedLog :: effect where
  "modelsLoadedLog = ConsoleLog ''Models loaded successfully!''"

definition videoPlayingLog :: effect where
  "videoPlayingLog = ConsoleLog ''Video started playing''"

text \<open>
  What holds after every event of the mounted component: a pending pass or frame, and a
  pending camera request, exist only with the flags that started them; the flags are
  announced in the trace; and no detection or camera call is in the trace before them.
\<close>

definition fd_inv :: "face_detection \<times> effect list \<Rightarrow> bool" where
  "fd_inv p =
     (case p of (s, tr) \<Rightarrow>
        (detectionPending s \<or> pendingFrame s \<noteq> None \<longrightarrow> modelsLoaded s \<and> isVideoPlaying s)
      \<and> (cameraPending s \<longrightarrow> modelsLoaded s)
      \<and> (modelsLoaded s \<longrightarrow> modelsLoadedLog \<in> set tr)
      \<and> (isVideoPlaying s \<longrightarrow> videoPlayingLog \<in> set tr)
      \<and> (\<not> modelsLoaded s \<longrightarrow> DetectSingleFace \<notin> set tr \<and> GetUserMedia 640 480 \<notin> set tr)
      \<and> (\<not> isVideoPlaying s \<longrightarrow> DetectSingleFace \<notin> set tr)
      \<and> precededBy modelsLoadedLog (GetUserMedia 640 480) tr
      \<and> precededBy modelsLoadedLog DetectSingleFace tr
      \<and> precededBy videoPlayingLog DetectSingleFace tr)"

section \<open>Values to evaluate on\<close>

text \<open>
  A video element showing a 640 by 480 stream, a canvas of the default size, an encoder
  that answers as \<open>toDataURL\<close> does on a canvas without pixels and with a fixed PNG
  otherwise, a text measure, a detected face, and the state of the capture page once a
  photo has been taken and nothing saved.
\<close>

definition video0 :: video where
  "video0 = \<lparr>srcObject = None, videoWidth = 640, videoHeight = 480\<rparr>"

definition canvas0 :: canvas where
  "canvas0 = \<lparr>width = 300, height = 150, content = [], has2d = True\<rparr>"

definition toDataURL0 :: "canvas \<Rightarrow> string" where
  "toDataURL0 c =
     (if width c = 0 \<or> height c = 0 then ''data:,'' else ''data:image/png;base64,iVBORw0KGgo='')"

definition measureText0 :: "string \<Rightarrow> real" where
  "measureText0 t = 12 * real (length t)"

definition face0 :: detection where
  "face0 = \<lparr>box = \<lparr>box_x = 200, box_y = 120, box_width = 180, box_height = 200\<rparr>,
            expressions = [(''happy'', 0.82), (''neutral'', 0.10), (''sad'', 0.08)]\<rparr>"

text \<open>A stand-in for the base64 decoder, to evaluate the endpoint on: the character codes.\<close>

definition charCodes :: "string \<Rightarrow> byte list" where
  "charCodes t = map (\<lambda>ch. of_nat (of_char ch)) t"

definition reviewing :: webcam_capture where
  "reviewing =
     \<lparr>videoRef = None,
      canvasRef = Some \<lparr>width = 640, height = 480, content = [VideoFrame 640 480], has2d = True\<rparr>,
      stream = Some (MediaStream [0]),
      capturedImage = Some ''data:image/png;base64,iVBORw0KGgo='', isSaving = False,
      savedFileName = None\<rparr>"

section \<open>Properties of the capture page\<close>

subsection \<open>The saving flag along the events of the page\<close>

lemma render_isSaving: "isSaving (render s) = isSaving s"
  by (simp add: render_def split: option.splits)

lemma render_savedFileName: "savedFileName (render s) = savedFileName s"
  by (simp add: render_def split: option.splits)

lemma saves_inv_mount: "saves_inv (wc_mount v c)"
  by (simp add: saves_inv_def wc_mount_def firstRender_def)

lemma saves_inv_step:
  assumes "saves_inv p"
  shows "saves_inv (andThen p (wc_step toDataURL e))"
proof (cases p)
  case (Pair s tr)
  then show ?thesis using assms
    by (cases e)
       (auto simp: saves_inv_def andThen_def clickSave_begin_def savePhoto_begin_def
          saveDisabled_def savePhoto_settle_def retake_begin_def startVideo_settle_def
          capturePhoto_def Let_def render_isSaving render_savedFileName
          split: option.splits if_splits fetch_outcome.splits save_response.splits
                 gum_result.splits)
qed

lemma saves_inv_run: "saves_inv p \<Longrightarrow> saves_inv (wc_run toDataURL es p)"
  by (induction es arbitrary: p) (simp_all add: saves_inv_step)

subsection \<open>Saving\<close>

text \<open>
  C1. While a save is in flight (\<open>isSaving\<close> is true) re-triggering the save is rejected
  and is a no-op. The trigger is the save button, the only caller of \<open>savePhoto\<close>; it is
  disabled while \<open>isSaving\<close> is true, so for every state with \<open>isSaving\<close> true a click on it
  sends no request and leaves the state as it is. Hence after any sequence of events of the
  page at most one save request is unsettled, and one is unsettled exactly while \<open>isSaving\<close>
  is true.
\<close>

theorem save_button_inert_while_saving:
  "(isSaving s \<longrightarrow> clickSave_begin s = None \<and> clickSave out s = (s, []))
   \<and> unsettledSaves (fst (wc_run toDataURL events (wc_mount v c))) \<le> 1
   \<and> (unsettledSaves (fst (wc_run toDataURL events (wc_mount v c))) = 1
        \<longleftrightarrow> isSaving (ui (fst (wc_run toDataURL events (wc_mount v c)))))"
  using saves_inv_run [OF saves_inv_mount, of toDataURL events v c]
  by (simp add: clickSave_begin_def clickSave_def saveDisabled_def saves_inv_def)

theorem save_button_inert_while_saving_witness:
  "isSaving (reviewing\<lparr>isSaving := True\<rparr>)
   \<and> clickSave_begin (reviewing\<lparr>isSaving := True\<rparr>) = None
   \<and> clickSave (Responded (SaveOk ''a.png'')) (reviewing\<lparr>isSaving := True\<rparr>)
        = (reviewing\<lparr>isSaving := True\<rparr>, [])"
  using save_button_inert_while_saving
          [of "reviewing\<lparr>isSaving := True\<rparr>" "Responded (SaveOk ''a.png'')" toDataURL0 "[]" video0 canvas0]
  by simp

text \<open>
  C6. When the endpoint answers \<open>{success: false}\<close> the failure is logged and nothing else
  is lost: \<open>isSaving\<close> is false again, \<open>savedFileName\<close> is still none, \<open>capturedImage\<close> is the
  one it was, and the save button is not disabled. The file name is none whenever a save
  is in flight, after any sequence of events of the page.
\<close>

theorem save_failure_keeps_photo:
  assumes "savedFileName s = None"
  shows "savePhoto_settle (Responded (SaveFailed err)) s
           = (s\<lparr>isSaving := False\<rparr>, [ConsoleError ''Failed to save image''])
         \<and> \<not> saveDisabled (s\<lparr>isSaving := False\<rparr>)
         \<and> savedFileName (s\<lparr>isSaving := False\<rparr>) = None
         \<and> capturedImage (s\<lparr>isSaving := False\<rparr>) = capturedImage s
         \<and> (\<forall>img. capturedImage s = Some img \<and> img \<noteq> [] \<longrightarrow>
              savePhoto (Responded (SaveFailed err)) s
                = (s\<lparr>isSaving := False\<rparr>,
                   [Fetch ''/api/save-image'' img, ConsoleError ''Failed to save image'']))
         \<and> (isSaving (ui (fst (wc_run toDataURL events (wc_mount v c))))
              \<longrightarrow> savedFileName (ui (fst (wc_run toDataURL events (wc_mount v c)))) = None)"
  using assms saves_inv_run [OF saves_inv_mount, of toDataURL events v c]
  by (simp add: savePhoto_settle_def saveDisabled_def savePhoto_def savePhoto_begin_def
                saves_inv_def)

theorem save_failure_keeps_photo_witness:
  "savedFileName (reviewing\<lparr>isSaving := True\<rparr>) = None
   \<and> savePhoto_settle (Responded (SaveFailed ''Failed to save image'')) (reviewing\<lparr>isSaving := True\<rparr>)
       = (reviewing, [ConsoleError ''Failed to save image''])
   \<and> \<not> saveDisabled reviewing
   \<and> capturedImage reviewing = Some ''data:image/png;base64,iVBORw0KGgo=''"
  using save_failure_keeps_photo
          [of "reviewing\<lparr>isSaving := True\<rparr>" "''Failed to save image''" toDataURL0 "[]" video0 canvas0]
  by (simp add: reviewing_def)

text \<open>
  C9. Invoking save when there is no captured frame (\<open>capturedImage = null\<close>) is a complete
  no-op: the call returns at the safety check, no request is sent and the state, with
  \<open>isSaving\<close>, \<open>savedFileName\<close> and \<open>capturedImage\<close>, is the one it was called in.
\<close>

theorem savePhoto_without_frame_noop:
  assumes "capturedImage s = None"
  shows "savePhoto_begin s = None \<and> savePhoto out s = (s, [])"
  using assms by (simp add: savePhoto_def savePhoto_begin_def)

theorem savePhoto_without_frame_noop_witness:
  "capturedImage (reviewing\<lparr>capturedImage := None, isSaving := True\<rparr>) = None
   \<and> savePhoto FetchThrew (reviewing\<lparr>capturedImage := None, isSaving := True\<rparr>)
       = (reviewing\<lparr>capturedImage := None, isSaving := True\<rparr>, [])"
  using savePhoto_without_frame_noop [of "reviewing\<lparr>capturedImage := None, isSaving := True\<rparr>" FetchThrew]
  by simp

text \<open>
  C10. Every invocation of save ends with \<open>isSaving\<close> false. The save button, rendered
  only in the review mode, is the only caller, so an invocation passes the safety check,
  sets \<open>isSaving\<close> and sends the request; whatever the request settles to (success, a
  failure answer, or an exception), the part of \<open>savePhoto\<close> after the \<open>await\<close> resets
  \<open>isSaving\<close>, in whatever state the page is by then. On the page, the settling of an
  unsettled save request always leaves \<open>isSaving\<close> false: the saving state is never the
  last one.
\<close>

theorem savePhoto_resets_isSaving:
  "(clickSave_begin s = Some (started, es)
      \<longrightarrow> savePhoto_begin s = Some (started, es) \<and> isSaving started
        \<and> \<not> isSaving (fst (savePhoto_settle out started)))
   \<and> (reviewMode s \<and> \<not> saveDisabled s \<longrightarrow> \<not> isSaving (fst (clickSave out s)))
   \<and> (truthy (capturedImage s) \<longrightarrow> \<not> isSaving (fst (savePhoto out s)))
   \<and> \<not> isSaving (fst (savePhoto_settle out later))
   \<and> (unsettledSaves p \<noteq> 0
        \<longrightarrow> \<not> isSaving (ui (fst (wc_step toDataURL (SaveSettles out) p))))"
  by (auto simp: clickSave_begin_def clickSave_def reviewMode_def savePhoto_def
        savePhoto_begin_def savePhoto_settle_def truthy_def render_isSaving
      split: option.splits fetch_outcome.splits save_response.splits if_splits)

theorem savePhoto_resets_isSaving_witness:
  "clickSave_begin reviewing
     = Some (reviewing\<lparr>isSaving := True\<rparr>,
             [Fetch ''/api/save-image'' ''data:image/png;base64,iVBORw0KGgo=''])
   \<and> \<not> isSaving (fst (savePhoto_settle FetchThrew (reviewing\<lparr>isSaving := True\<rparr>)))
   \<and> reviewMode reviewing \<and> \<not> saveDisabled reviewing
   \<and> \<not> isSaving (fst (clickSave FetchThrew reviewing))
   \<and> truthy (capturedImage reviewing)
   \<and> \<not> isSaving (fst (savePhoto (Responded (SaveFailed ''Failed to save image'')) reviewing))
   \<and> unsettledSaves \<lparr>ui = reviewing\<lparr>isSaving := True\<rparr>, unsettledSaves = 1, unsettledCameras = 0\<rparr> \<noteq> 0
   \<and> \<not> isSaving (ui (fst (wc_step toDataURL0 (SaveSettles (Responded (SaveOk ''ab01.png'')))
          \<lparr>ui = reviewing\<lparr>isSaving := True\<rparr>, unsettledSaves = 1, unsettledCameras = 0\<rparr>)))"
proof -
  have started0: "clickSave_begin reviewing
     = Some (reviewing\<lparr>isSaving := True\<rparr>,
             [Fetch ''/api/save-image'' ''data:image/png;base64,iVBORw0KGgo=''])"
    by (simp add: clickSave_begin_def reviewMode_def saveDisabled_def truthy_def
          savePhoto_begin_def reviewing_def)
  have mode: "reviewMode reviewing \<and> \<not> saveDisabled reviewing"
    by (simp add: reviewMode_def saveDisabled_def truthy_def reviewing_def)
  have photo: "truthy (capturedImage reviewing)"
    by (simp add: truthy_def reviewing_def)
  have pending: "unsettledSaves \<lparr>ui = reviewing\<lparr>isSaving := True\<rparr>, unsettledSaves = 1, unsettledCameras = 0\<rparr> \<noteq> 0"
    by simp
  show ?thesis
    using started0 mode photo pending
      savePhoto_resets_isSaving
        [where s = reviewing and started = "reviewing\<lparr>isSaving := True\<rparr>"
           and es = "[Fetch ''/api/save-image'' ''data:image/png;base64,iVBORw0KGgo='']"
           and out = "FetchThrew" and later = reviewing
           and p = "\<lparr>ui = reviewing\<lparr>isSaving := True\<rparr>, unsettledSaves = 1, unsettledCameras = 0\<rparr>"
           and toDataURL = toDataURL0]
      savePhoto_resets_isSaving
        [where s = reviewing and started = "reviewing\<lparr>isSaving := True\<rparr>"
           and es = "[Fetch ''/api/save-image'' ''data:image/png;base64,iVBORw0KGgo='']"
           and out = "Responded (SaveFailed ''Failed to save image'')" and later = reviewing
           and p = "\<lparr>ui = reviewing\<lparr>isSaving := True\<rparr>, unsettledSaves = 1, unsettledCameras = 0\<rparr>"
           and toDataURL = toDataURL0]
      savePhoto_resets_isSaving
        [where s = reviewing and started = "reviewing\<lparr>isSaving := True\<rparr>"
           and es = "[Fetch ''/api/save-image'' ''data:image/png;base64,iVBORw0KGgo='']"
           and out = "Responded (SaveOk ''ab01.png'')" and later = reviewing
           and p = "\<lparr>ui = reviewing\<lparr>isSaving := True\<rparr>, unsettledSaves = 1, unsettledCameras = 0\<rparr>"
           and toDataURL = toDataURL0]
    by blast
qed

subsection \<open>Capturing\<close>

text \<open>
  C5. For every successful capture (both elements are there and the canvas gives a 2d
  context) the captured frame is the encoding of a raster whose width and height are the
  \<open>videoWidth\<close> and \<open>videoHeight\<close> the video element reports at that moment, and which
  holds the frame drawn at that size.
\<close>

theorem capturePhoto_dimensions:
  assumes "videoRef s = Some v" and "canvasRef s = Some c" and "has2d c"
  shows "\<exists>raster. canvasRef (capturePhoto toDataURL s) = Some raster
           \<and> capturedImage (capturePhoto toDataURL s) = Some (toDataURL raster)
           \<and> width raster = videoWidth v \<and> height raster = videoHeight v
           \<and> content raster = [VideoFrame (videoWidth v) (videoHeight v)]"
  using assms by (simp add: capturePhoto_def setSize_def Let_def)

theorem capturePhoto_dimensions_witness:
  "videoRef (firstRender video0 canvas0) = Some video0
   \<and> canvasRef (firstRender video0 canvas0) = Some canvas0
   \<and> has2d canvas0
   \<and> (\<exists>raster. canvasRef (capturePhoto toDataURL0 (firstRender video0 canvas0)) = Some raster
           \<and> capturedImage (capturePhoto toDataURL0 (firstRender video0 canvas0))
               = Some (toDataURL0 raster)
           \<and> width raster = videoWidth video0 \<and> height raster = videoHeight video0
           \<and> content raster = [VideoFrame (videoWidth video0) (videoHeight video0)])"
proof -
  have v: "videoRef (firstRender video0 canvas0) = Some video0"
    by (simp add: firstRender_def)
  have c: "canvasRef (firstRender video0 canvas0) = Some canvas0"
    by (simp add: firstRender_def)
  have h: "has2d canvas0"
    by (simp add: canvas0_def)
  from capturePhoto_dimensions [OF v c h, of toDataURL0] v c h show ?thesis
    by (intro conjI)
qed

subsection \<open>Releasing the camera\<close>

text \<open>What does hold: \<open>startVideo\<close> stops every track of the stream in the state before it asks
  for a new one, and \<open>retake\<close> clears the photo and the file name and does the same.\<close>

lemma startVideo_stops_held_stream:
  "stream s = Some (MediaStream ts)
   \<Longrightarrow> startVideo_begin s = map StopTrack ts @ [GetUserMedia 640 480]"
  by (simp add: startVideo_begin_def stopTracks_def)

lemma retake_resets_and_restarts:
  "retake_begin s = (s', es)
   \<Longrightarrow> capturedImage s' = None \<and> savedFileName s' = None
       \<and> es = stopTracks (stream s) @ [GetUserMedia 640 480]"
  by (auto simp: retake_begin_def startVideo_begin_def)

text \<open>
  A stream granted while the page is in the review mode finds no video element: it is
  neither bound nor stored, so the retake that follows stops nothing and asks for a
  second stream.
\<close>

lemma stream_granted_in_review_mode_is_dropped:
  "stream (ui (fst (wc_run toDataURL0
       [ClickTakePhoto, CameraSettles (Granted (MediaStream [7])), ClickRetake,
        CameraSettles (Granted (MediaStream [8]))] (wc_mount video0 canvas0))))
     = Some (MediaStream [8])
   \<and> snd (wc_run toDataURL0
       [ClickTakePhoto, CameraSettles (Granted (MediaStream [7])), ClickRetake,
        CameraSettles (Granted (MediaStream [8]))] (wc_mount video0 canvas0))
     = [GetUserMedia 640 480, GetUserMedia 640 480]"
  by (simp add: wc_mount_def andThen_def firstRender_def startVideo_begin_def
        startVideo_settle_def stopTracks_def render_def truthy_def reviewMode_def
        capturePhoto_def setSize_def retake_begin_def toDataURL0_def video0_def canvas0_def Let_def)

text \<open>
  C2 fails at unmount. The page is mounted, the camera is granted a stream with the track
  7, the page is unmounted: the stream is the one the state holds, and the only call made
  in the whole visit is the camera request. The cleanup tests the \<open>stream\<close> of the first
  render, which is \<open>null\<close>, so the track is never stopped.
\<close>

theorem unmount_leaves_stream_running:
  "stream (ui (fst (wc_visit toDataURL v c [CameraSettles (Granted (MediaStream [7]))])))
     = Some (MediaStream [7])
   \<and> snd (wc_visit toDataURL v c [CameraSettles (Granted (MediaStream [7]))])
     = [GetUserMedia 640 480]"
  by (simp add: wc_visit_def wc_mount_def andThen_def firstRender_def startVideo_begin_def
        startVideo_settle_def mountCleanup_def stopTracks_def render_def truthy_def)

section \<open>Properties of the endpoint\<close>

lemma not_wordChar_semicolon: "\<not> wordChar CHR '';''"
  by (simp add: wordChar_def)

lemma strip_matching_prefix:
  assumes "subtype \<noteq> []" and "\<forall>ch\<in>set subtype. wordChar ch"
  shows "stripDataUrlPrefix (''data:image/'' @ subtype @ '';base64,'' @ payload) = payload"
proof -
  have tw: "takeWhile wordChar (subtype @ CHR '';'' # rest) = subtype" for rest
    using assms(2) not_wordChar_semicolon by (simp add: takeWhile_append2)
  have dw: "dropWhile wordChar (subtype @ CHR '';'' # rest) = CHR '';'' # rest" for rest
    using assms(2) not_wordChar_semicolon by (simp add: dropWhile_append2)
  show ?thesis
    using assms(1) by (simp add: stripDataUrlPrefix_def tw dw)
qed

lemma hexDigit_mem: "hexDigit n \<in> set ''0123456789abcdef''"
proof -
  have "n mod 16 < length ''0123456789abcdef''" by simp
  then show ?thesis unfolding hexDigit_def by (rule nth_mem)
qed

lemma toHex_length: "length (toHex bs) = 2 * length bs"
  by (induction bs) (simp_all add: toHex_def hexByte_def)

lemma toHex_digits: "set (toHex bs) \<subseteq> set ''0123456789abcdef''"
proof (induction bs)
  case Nil
  show ?case by (simp add: toHex_def)
next
  case (Cons b bs)
  have "set (hexByte b) \<subseteq> set ''0123456789abcdef''"
    using hexDigit_mem [of "unat b div 16"] hexDigit_mem [of "unat b mod 16"]
    by (simp add: hexByte_def)
  then show ?case using Cons by (simp add: toHex_def)
qed

lemma hexDigit_inj:
  assumes "a < 16" and "b < 16" and "hexDigit a = hexDigit b"
  shows "a = b"
proof -
  have d: "distinct ''0123456789abcdef''" by simp
  have "''0123456789abcdef'' ! a = ''0123456789abcdef'' ! b"
    using assms by (simp add: hexDigit_def)
  moreover have "a < length ''0123456789abcdef''" "b < length ''0123456789abcdef''"
    using assms by simp_all
  ultimately show ?thesis using d nth_eq_iff_index_eq by blast
qed

lemma hexByte_inj:
  assumes "hexByte a = hexByte b"
  shows "a = b"
proof -
  have la: "unat a < 256" and lb: "unat b < 256"
    using unsigned_less [of a, where ?'a = nat] unsigned_less [of b, where ?'a = nat] by simp_all
  have hi: "hexDigit (unat a div 16) = hexDigit (unat b div 16)"
    and lo: "hexDigit (unat a mod 16) = hexDigit (unat b mod 16)"
    using assms by (simp_all add: hexByte_def)
  have "unat a div 16 = unat b div 16"
    using la lb by (intro hexDigit_inj [OF _ _ hi]) simp_all
  moreover have "unat a mod 16 = unat b mod 16"
    by (intro hexDigit_inj [OF _ _ lo]) simp_all
  ultimately have "unat a = unat b"
    by (metis div_mult_mod_eq)
  then show ?thesis by (simp add: word_unat_eq_iff)
qed

lemma toHex_Cons: "toHex (b # bs) = hexByte b @ toHex bs"
  by (simp add: toHex_def)

lemma toHex_inj: "toHex xs = toHex ys \<Longrightarrow> xs = ys"
proof (induction xs arbitrary: ys)
  case Nil
  then show ?case by (cases ys) (simp_all add: toHex_def hexByte_def)
next
  case (Cons x xs)
  show ?case
  proof (cases ys)
    case Nil
    with Cons.prems show ?thesis by (simp add: toHex_def hexByte_def)
  next
    case (Cons y ys')
    with Cons.prems have "hexByte x @ toHex xs = hexByte y @ toHex ys'"
      by (simp add: toHex_Cons)
    moreover have "length (hexByte x) = length (hexByte y)" by (simp add: hexByte_def)
    ultimately have "hexByte x = hexByte y" and "toHex xs = toHex ys'" by simp_all
    then show ?thesis using Cons Cons.IH hexByte_inj by blast
  qed
qed

lemma clean_no_slash: "clean d \<Longrightarrow> CHR ''/'' \<notin> set d"
  by (simp add: clean_def)

lemma clean_nonempty: "clean d \<Longrightarrow> d \<noteq> []"
  by (simp add: clean_def)

lemma splitOn_nonempty: "splitOn sep s \<noteq> []"
  by (induction s) (auto split: list.splits)

lemma splitOn_clean_prefix:
  "sep \<notin> set d \<Longrightarrow> splitOn sep (d @ rest) = (d @ hd (splitOn sep rest)) # tl (splitOn sep rest)"
  by (induction d) (auto simp: splitOn_nonempty split: list.splits)

lemma splitOn_dirs:
  "\<forall>d\<in>set dirs. CHR ''/'' \<notin> set d
   \<Longrightarrow> splitOn CHR ''/'' (concat (map (\<lambda>d. CHR ''/'' # d) dirs)) = [] # dirs"
proof (induction dirs)
  case Nil
  show ?case by simp
next
  case (Cons d dirs)
  then have ih: "splitOn CHR ''/'' (concat (map (\<lambda>d. CHR ''/'' # d) dirs)) = [] # dirs" by simp
  have "splitOn CHR ''/'' (d @ concat (map (\<lambda>d. CHR ''/'' # d) dirs)) = d # dirs"
    using Cons.prems by (simp add: splitOn_clean_prefix ih)
  then show ?case by simp
qed

lemma normalizeString_clean:
  "\<forall>seg\<in>set segs. seg = [] \<or> clean seg
   \<Longrightarrow> normalizeString allow res segs = res @ filter (\<lambda>seg. seg \<noteq> []) segs"
  by (induction segs arbitrary: res) (auto simp: clean_def)

lemma joinWith_concat:
  "dirs \<noteq> [] \<Longrightarrow> sep @ joinWith sep dirs = concat (map (\<lambda>d. sep @ d) dirs)"
  by (induction sep dirs rule: joinWith.induct) simp_all

lemma joinWith_dirs:
  "dirs \<noteq> [] \<Longrightarrow> CHR ''/'' # joinWith ''/'' dirs = concat (map (\<lambda>d. CHR ''/'' # d) dirs)"
  using joinWith_concat [of dirs "''/''"] by simp

lemma joinWith_Cons: "xs \<noteq> [] \<Longrightarrow> joinWith sep (x # xs) = x @ sep @ joinWith sep xs"
  by (cases xs) simp_all

lemma joinWith_nonempty: "xs \<noteq> [] \<Longrightarrow> hd xs \<noteq> [] \<Longrightarrow> joinWith sep xs \<noteq> []"
  by (cases "(sep, xs)" rule: joinWith.cases) auto

lemma last_concat_dirs:
  "dirs \<noteq> [] \<Longrightarrow> last (concat (map (\<lambda>d. CHR ''/'' # d) dirs)) = last (CHR ''/'' # last dirs)"
  by (induction dirs) auto

lemma concat_dirs_last:
  assumes "dirs \<noteq> []" and "clean (last dirs)"
  shows "concat (map (\<lambda>d. CHR ''/'' # d) dirs) \<noteq> []
         \<and> hd (concat (map (\<lambda>d. CHR ''/'' # d) dirs)) = CHR ''/''
         \<and> last (concat (map (\<lambda>d. CHR ''/'' # d) dirs)) \<noteq> CHR ''/''"
proof -
  have ne: "last dirs \<noteq> []" and no: "CHR ''/'' \<notin> set (last dirs)"
    using assms(2) by (simp_all add: clean_def)
  have "last (last dirs) \<in> set (last dirs)" using ne by simp
  with no have "last (last dirs) \<noteq> CHR ''/''" by auto
  then have "last (concat (map (\<lambda>d. CHR ''/'' # d) dirs)) \<noteq> CHR ''/''"
    using ne by (simp add: last_concat_dirs [OF assms(1)])
  moreover have "hd (concat (map (\<lambda>d. CHR ''/'' # d) dirs)) = CHR ''/''"
    using assms(1) by (cases dirs) simp_all
  moreover have "concat (map (\<lambda>d. CHR ''/'' # d) dirs) \<noteq> []"
    using assms(1) by (cases dirs) simp_all
  ultimately show ?thesis by simp
qed

lemma path_normalize_absolute:
  assumes "dirs \<noteq> []" and "\<forall>d\<in>set dirs. d = [] \<or> clean d" and "clean (last dirs)"
  shows "path_normalize (concat (map (\<lambda>d. CHR ''/'' # d) dirs))
           = concat (map (\<lambda>d. CHR ''/'' # d) (filter (\<lambda>d. d \<noteq> []) dirs))"
proof -
  let ?path = "concat (map (\<lambda>d. CHR ''/'' # d) dirs)"
  let ?kept = "filter (\<lambda>d. d \<noteq> []) dirs"
  have shape: "?path \<noteq> []" "hd ?path = CHR ''/''" "last ?path \<noteq> CHR ''/''"
    using concat_dirs_last [OF assms(1) assms(3)] by simp_all
  have "\<forall>d\<in>set dirs. CHR ''/'' \<notin> set d"
  proof
    fix d assume "d \<in> set dirs"
    then have "d = [] \<or> clean d" using assms(2) by simp
    then show "CHR ''/'' \<notin> set d" using clean_no_slash by (cases "d = []") simp_all
  qed
  then have split: "splitOn CHR ''/'' ?path = [] # dirs"
    by (rule splitOn_dirs)
  have norm: "normalizeString False [] dirs = ?kept"
    using assms(2) by (simp add: normalizeString_clean)
  have "last dirs \<in> set dirs" using assms(1) by simp
  moreover have "last dirs \<noteq> []" using assms(3) by (simp add: clean_def)
  ultimately have kept: "?kept \<noteq> []" by (simp add: filter_empty_conv, blast)
  have body: "CHR ''/'' # joinWith ''/'' ?kept = concat (map (\<lambda>d. CHR ''/'' # d) ?kept)"
    using kept by (rule joinWith_dirs)
  have "hd ?kept \<in> set ?kept" using kept by (rule hd_in_set)
  then have "hd ?kept \<noteq> []" by simp
  then have nonempty: "joinWith ''/'' ?kept \<noteq> []"
    using kept by (rule_tac joinWith_nonempty)
  have "path_normalize ?path = CHR ''/'' # joinWith ''/'' ?kept"
    unfolding path_normalize_def Let_def split
    using shape nonempty by (simp add: norm)
  then show ?thesis using body by simp
qed

lemma path_join_absolute:
  assumes "\<forall>d\<in>set dirs. clean d" and "\<forall>x\<in>set xs. clean x" and "xs \<noteq> []"
  shows "path_join (absolute dirs # xs) = absolute (dirs @ xs)"
proof -
  have xs_nonempty: "\<forall>x\<in>set xs. x \<noteq> []"
    using assms(2) clean_nonempty by blast
  have dirs_nonempty: "\<forall>d\<in>set dirs. d \<noteq> []"
    using assms(1) clean_nonempty by blast
  have "absolute dirs \<noteq> []"
    by (cases dirs) (simp_all add: absolute_def)
  then have parts: "filter (\<lambda>part. part \<noteq> []) (absolute dirs # xs) = absolute dirs # xs"
    using xs_nonempty by (simp add: filter_id_conv)
  have tail: "CHR ''/'' # joinWith ''/'' xs = concat (map (\<lambda>d. CHR ''/'' # d) xs)"
    using assms(3) by (rule joinWith_dirs)
  have joined: "joinWith ''/'' (absolute dirs # xs)
                  = concat (map (\<lambda>d. CHR ''/'' # d) ((if dirs = [] then [[]] else dirs) @ xs))"
    using assms(3) tail by (simp add: joinWith_Cons absolute_def)
  let ?all = "(if dirs = [] then [[]] else dirs) @ xs"
  have 1: "?all \<noteq> []" using assms(3) by simp
  have 2: "\<forall>d\<in>set ?all. d = [] \<or> clean d" using assms(1,2) by (cases "dirs = []") auto
  have 3: "clean (last ?all)" using assms(2,3) by simp
  have 4: "filter (\<lambda>d. d \<noteq> []) ?all = dirs @ xs"
    using xs_nonempty dirs_nonempty by (cases "dirs = []") (simp_all add: filter_id_conv)
  have "joinWith ''/'' (absolute dirs # xs) \<noteq> []"
    using concat_dirs_last [OF 1 3] joined by simp
  then have "path_join (absolute dirs # xs) = path_normalize (concat (map (\<lambda>d. CHR ''/'' # d) ?all))"
    using parts joined by (simp add: path_join_def Let_def)
  also have "\<dots> = concat (map (\<lambda>d. CHR ''/'' # d) (filter (\<lambda>d. d \<noteq> []) ?all))"
    using 1 2 3 by (rule path_normalize_absolute)
  also have "\<dots> = concat (map (\<lambda>d. CHR ''/'' # d) (dirs @ xs))"
    by (simp only: 4)
  also have "\<dots> = absolute (dirs @ xs)"
    using assms(3) by (simp add: absolute_def)
  finally show ?thesis .
qed

lemma clean_fileName: "clean (toHex rnd @ ''.png'')"
proof -
  have "CHR ''/'' \<notin> set (toHex rnd)"
    using toHex_digits [of rnd] by auto
  then have slash: "CHR ''/'' \<notin> set (toHex rnd @ ''.png'')" by simp
  have dot: "toHex rnd @ ''.png'' \<noteq> ''.''"
  proof
    assume e: "toHex rnd @ ''.png'' = ''.''"
    have "length (toHex rnd @ ''.png'') = length ''.''" by (simp only: e)
    then show False by simp
  qed
  have dots: "toHex rnd @ ''.png'' \<noteq> ''..''"
  proof
    assume e: "toHex rnd @ ''.png'' = ''..''"
    have "length (toHex rnd @ ''.png'') = length ''..''" by (simp only: e)
    then show False by simp
  qed
  show ?thesis using slash dot dots by (simp add: clean_def)
qed

lemma path_under_public:
  assumes "\<forall>d\<in>set dirs. clean d"
  shows "path_join [path_join [absolute dirs, ''public'', ''captured-photos''], toHex rnd @ ''.png'']
           = absolute (dirs @ [''public'', ''captured-photos'', toHex rnd @ ''.png''])"
proof -
  have names: "\<forall>x\<in>set [''public'', ''captured-photos'']. clean x"
    by (simp add: clean_def)
  have first: "path_join [absolute dirs, ''public'', ''captured-photos'']
                 = absolute (dirs @ [''public'', ''captured-photos''])"
    using assms names by (intro path_join_absolute) simp_all
  have all: "\<forall>d\<in>set (dirs @ [''public'', ''captured-photos'']). clean d"
    using assms names by auto
  have fname: "\<forall>x\<in>set [toHex rnd @ ''.png'']. clean x"
    using clean_fileName by simp
  have "path_join [absolute (dirs @ [''public'', ''captured-photos'']), toHex rnd @ ''.png'']
          = absolute ((dirs @ [''public'', ''captured-photos'']) @ [toHex rnd @ ''.png''])"
    using all fname by (intro path_join_absolute) simp_all
  then show ?thesis using first by simp
qed

text \<open>
  C8, as the claim states it, fails for data URIs the expression does not match. The
  subtype of \<open>data:image/svg+xml;base64,...\<close> is no run of word characters, and \<open>data:,\<close>
  (what \<open>toDataURL\<close> returns for a canvas without pixels) has no such prefix at all: the
  endpoint strips nothing, decodes the whole string and answers with success.
\<close>

theorem POST_unmatched_data_url_counterexample:
  "stripDataUrlPrefix ''data:image/svg+xml;base64,PHN2Zy8+'' = ''data:image/svg+xml;base64,PHN2Zy8+''
   \<and> stripDataUrlPrefix ''data:,'' = ''data:,''
   \<and> POST charCodes ''/srv/app'' [0xAB, 0x01] True
         (WithImage ''data:image/svg+xml;base64,PHN2Zy8+'') Map.empty
       = (\<lparr>body = Success ''ab01.png'', status = 200\<rparr>,
          [''/srv/app/public/captured-photos/ab01.png''
             \<mapsto> charCodes ''data:image/svg+xml;base64,PHN2Zy8+''])"
  by (simp add: POST_def stripDataUrlPrefix_def wordChar_def Let_def toHex_def hexByte_def
                hexDigit_def path_join_def path_normalize_def)

text \<open>
  C8, amended. For every save request whose image starts with \<open>data:image/\<close>, one or more
  word characters and \<open>;base64,\<close>, the endpoint strips that prefix, decodes the rest from
  base64 and writes it to the file that \<open>join\<close> makes of the working directory, \<open>public\<close>,
  \<open>captured-photos\<close> and the file name: with the working directory given by its directory
  names, the path of those names, then \<open>public\<close>, \<open>captured-photos\<close> and the file name. The
  file name is the hexadecimal digits of the random bytes (two per byte, different bytes
  giving different names) and \<open>.png\<close>. The endpoint answers \<open>{success: true, fileName}\<close>,
  and \<open>{success: false, error}\<close> with status 500 when the write fails.
\<close>

theorem POST_matching_data_url:
  assumes "subtype \<noteq> []" and "\<forall>ch\<in>set subtype. wordChar ch"
  shows "POST decode cwd rnd True
           (WithImage (''data:image/'' @ subtype @ '';base64,'' @ payload)) files
           = (\<lparr>body = Success (toHex rnd @ ''.png''), status = 200\<rparr>,
              files(path_join [path_join [cwd, ''public'', ''captured-photos''], toHex rnd @ ''.png'']
                      \<mapsto> decode payload))
         \<and> ((\<forall>d\<in>set dirs. clean d) \<longrightarrow>
              POST decode (absolute dirs) rnd True
                (WithImage (''data:image/'' @ subtype @ '';base64,'' @ payload)) files
              = (\<lparr>body = Success (toHex rnd @ ''.png''), status = 200\<rparr>,
                 files(absolute (dirs @ [''public'', ''captured-photos'', toHex rnd @ ''.png''])
                         \<mapsto> decode payload)))
         \<and> POST decode cwd rnd False
             (WithImage (''data:image/'' @ subtype @ '';base64,'' @ payload)) files
           = (\<lparr>body = Failure ''Failed to save image'', status = 500\<rparr>, files)
         \<and> length (toHex rnd) = 2 * length rnd
         \<and> set (toHex rnd) \<subseteq> set ''0123456789abcdef''
         \<and> (toHex rnd = toHex rnd' \<longrightarrow> rnd = rnd')"
proof -
  have strip: "stripDataUrlPrefix (''data:image/'' @ subtype @ '';base64,'' @ payload) = payload"
    using assms by (rule strip_matching_prefix)
  have general: "POST decode dir rnd True
           (WithImage (''data:image/'' @ subtype @ '';base64,'' @ payload)) files
           = (\<lparr>body = Success (toHex rnd @ ''.png''), status = 200\<rparr>,
              files(path_join [path_join [dir, ''public'', ''captured-photos''], toHex rnd @ ''.png'']
                      \<mapsto> decode payload))" for dir
    unfolding POST_def Let_def using strip by simp
  have failure: "POST decode cwd rnd False
             (WithImage (''data:image/'' @ subtype @ '';base64,'' @ payload)) files
           = (\<lparr>body = Failure ''Failed to save image'', status = 500\<rparr>, files)"
    by (simp add: POST_def Let_def failed_def)
  have named: "(\<forall>d\<in>set dirs. clean d) \<longrightarrow>
              POST decode (absolute dirs) rnd True
                (WithImage (''data:image/'' @ subtype @ '';base64,'' @ payload)) files
              = (\<lparr>body = Success (toHex rnd @ ''.png''), status = 200\<rparr>,
                 files(absolute (dirs @ [''public'', ''captured-photos'', toHex rnd @ ''.png''])
                         \<mapsto> decode payload))"
  proof
    assume "\<forall>d\<in>set dirs. clean d"
    then have "path_join [path_join [absolute dirs, ''public'', ''captured-photos''], toHex rnd @ ''.png'']
           = absolute (dirs @ [''public'', ''captured-photos'', toHex rnd @ ''.png''])"
      by (rule path_under_public)
    then show "POST decode (absolute dirs) rnd True
                (WithImage (''data:image/'' @ subtype @ '';base64,'' @ payload)) files
              = (\<lparr>body = Success (toHex rnd @ ''.png''), status = 200\<rparr>,
                 files(absolute (dirs @ [''public'', ''captured-photos'', toHex rnd @ ''.png''])
                         \<mapsto> decode payload))"
      using general [of "absolute dirs"] by (simp only:)
  qed
  have inj: "toHex rnd = toHex rnd' \<longrightarrow> rnd = rnd'"
    using toHex_inj by blast
  show ?thesis
    by (intro conjI general named failure toHex_length toHex_digits inj)
qed

theorem POST_matching_data_url_witness:
  "''png'' \<noteq> [] \<and> wordChar CHR ''p'' \<and> wordChar CHR ''n'' \<and> wordChar CHR ''g''
   \<and> clean ''srv'' \<and> clean ''app''
   \<and> POST charCodes ''/srv/app'' [0xAB, 0x01] True
        (WithImage ''data:image/png;base64,iVBORw0KGgo='') Map.empty
       = (\<lparr>body = Success ''ab01.png'', status = 200\<rparr>,
          [''/srv/app/public/captured-photos/ab01.png'' \<mapsto> charCodes ''iVBORw0KGgo=''])
   \<and> POST charCodes ''/'' [0xAB, 0x01] True
        (WithImage ''data:image/png;base64,iVBORw0KGgo='') Map.empty
       = (\<lparr>body = Success ''ab01.png'', status = 200\<rparr>,
          [''/public/captured-photos/ab01.png'' \<mapsto> charCodes ''iVBORw0KGgo=''])"
proof -
  have sub: "''png'' \<noteq> []" "\<forall>ch\<in>set ''png''. wordChar ch"
    by (simp_all add: wordChar_def)
  have dirs: "\<forall>d\<in>set [''srv'', ''app'']. clean d" "\<forall>d\<in>set ([]::string list). clean d"
    by (simp_all add: clean_def)
  note app = POST_matching_data_url [where subtype = "''png''" and dirs = "[''srv'', ''app'']"
      and decode = charCodes and rnd = "[0xAB, 0x01]" and payload = "''iVBORw0KGgo=''"
      and files = Map.empty and cwd = "''/srv/app''" and rnd' = "[]", OF sub]
  note root = POST_matching_data_url [where subtype = "''png''" and dirs = "[]"
      and decode = charCodes and rnd = "[0xAB, 0x01]" and payload = "''iVBORw0KGgo=''"
      and files = Map.empty and cwd = "''/''" and rnd' = "[]", OF sub]
  have a: "POST charCodes ''/srv/app'' [0xAB, 0x01] True
        (WithImage ''data:image/png;base64,iVBORw0KGgo='') Map.empty
       = (\<lparr>body = Success ''ab01.png'', status = 200\<rparr>,
          [''/srv/app/public/captured-photos/ab01.png'' \<mapsto> charCodes ''iVBORw0KGgo=''])"
    using app [THEN conjunct2, THEN conjunct1, THEN mp, OF dirs(1)]
    by (simp add: absolute_def toHex_def hexByte_def hexDigit_def)
  have r: "POST charCodes ''/'' [0xAB, 0x01] True
        (WithImage ''data:image/png;base64,iVBORw0KGgo='') Map.empty
       = (\<lparr>body = Success ''ab01.png'', status = 200\<rparr>,
          [''/public/captured-photos/ab01.png'' \<mapsto> charCodes ''iVBORw0KGgo=''])"
    using root [THEN conjunct2, THEN conjunct1, THEN mp, OF dirs(2)]
    by (simp add: absolute_def toHex_def hexByte_def hexDigit_def)
  show ?thesis using a r by (simp add: wordChar_def clean_def)
qed

section \<open>Properties of the detection page\<close>

subsection \<open>The dominant entry\<close>

lemma reduce1_snoc:
  "xs \<noteq> [] \<Longrightarrow> reduce1 f (xs @ [x]) = Some (f (the (reduce1 f xs)) x)"
  by (cases xs) simp_all

lemma dominantExpression_last_maximum:
  assumes "entries \<noteq> []"
  shows "\<exists>before d after.
           entries = before @ d # after
         \<and> (\<forall>e\<in>set before. snd e \<le> snd d) \<and> (\<forall>e\<in>set after. snd e < snd d)
         \<and> dominantExpression entries = Some d"
  using assms
proof (induction entries rule: rev_nonempty_induct)
  case (single x)
  have "[x] = [] @ x # [] \<and> (\<forall>e\<in>set []. snd e \<le> snd x) \<and> (\<forall>e\<in>set []. snd e < snd x)
        \<and> dominantExpression [x] = Some x"
    by (simp add: dominantExpression_def)
  then show ?case by (intro exI)
next
  case (snoc x xs)
  then obtain before d after where
    split: "xs = before @ d # after" and
    le: "\<forall>e\<in>set before. snd e \<le> snd d" and
    less: "\<forall>e\<in>set after. snd e < snd d" and
    dom: "dominantExpression xs = Some d"
    by blast
  have step: "dominantExpression (xs @ [x]) = Some (if snd d > snd x then d else x)"
    using snoc.hyps dom by (simp add: dominantExpression_def reduce1_snoc)
  show ?case
  proof (cases "snd d > snd x")
    case True
    have "xs @ [x] = before @ d # (after @ [x])
          \<and> (\<forall>e\<in>set before. snd e \<le> snd d) \<and> (\<forall>e\<in>set (after @ [x]). snd e < snd d)
          \<and> dominantExpression (xs @ [x]) = Some d"
      using split le less True step by simp
    then show ?thesis by (intro exI)
  next
    case False
    have "\<forall>e\<in>set xs. snd e \<le> snd x"
    proof
      fix e assume "e \<in> set xs"
      then have "e \<in> set before \<or> e = d \<or> e \<in> set after" using split by auto
      then have "snd e \<le> snd d" using le less by fastforce
      then show "snd e \<le> snd x" using False by simp
    qed
    then have "xs @ [x] = xs @ x # []
          \<and> (\<forall>e\<in>set xs. snd e \<le> snd x) \<and> (\<forall>e\<in>set []. snd e < snd x)
          \<and> dominantExpression (xs @ [x]) = Some x"
      using step False by simp
    then show ?thesis by (intro exI)
  qed
qed

subsection \<open>The rounding error of the percentage\<close>

lemma roundTiesToEven_error: "\<bar>of_int (roundTiesToEven q) - q\<bar> \<le> 1 / 2"
  unfolding roundTiesToEven_def Let_def by (auto; linarith)

lemma halvings_bounds: "1 \<le> x \<Longrightarrow> 0 \<le> halvings n x \<and> 2 ^ nat (halvings n x) \<le> x"
proof (induction n x rule: halvings.induct)
  case (1 n x)
  show ?case
  proof (cases "n = 0 \<or> x < 2")
    case True
    then show ?thesis using "1.prems" by (simp add: halvings.simps)
  next
    case False
    then have ih: "0 \<le> halvings (n - 1) (x / 2) \<and> 2 ^ nat (halvings (n - 1) (x / 2)) \<le> x / 2"
      using "1.IH" by simp
    have eq: "halvings n x = 1 + halvings (n - 1) (x / 2)"
      using False by (subst halvings.simps) simp
    have "nat (1 + halvings (n - 1) (x / 2)) = Suc (nat (halvings (n - 1) (x / 2)))"
      using ih by (simp add: nat_add_distrib)
    then show ?thesis using ih eq by simp
  qed
qed

lemma doublings_le_0: "doublings n x \<le> 0"
proof (induction n x rule: doublings.induct)
  case (1 n x)
  show ?case
  proof (cases "n = 0 \<or> 1 \<le> x")
    case True
    then show ?thesis by (simp add: doublings.simps)
  next
    case False
    then have "doublings (n - 1) (2 * x) \<le> 0" using "1.IH" by simp
    moreover have "doublings n x = doublings (n - 1) (2 * x) - 1"
      using False by (subst doublings.simps) simp
    ultimately show ?thesis by simp
  qed
qed

lemma exponent_le_6:
  assumes "0 < x" and "x \<le> 100"
  shows "exponent x \<le> 6"
proof (cases "1 \<le> x")
  case True
  then have b: "0 \<le> halvings 1023 x" "2 ^ nat (halvings 1023 x) \<le> x"
    using halvings_bounds by simp_all
  have "(2::real) ^ nat (halvings 1023 x) < 2 ^ 7" using b(2) assms(2) by simp
  then have "nat (halvings 1023 x) < 7" by (simp only: power_strict_increasing_iff)
  then show ?thesis using True b(1) by (simp add: exponent_def)
next
  case False
  then show ?thesis using doublings_le_0 [of 1022 x] by (simp add: exponent_def)
qed

lemma pow2_pos: "0 < pow2 e"
  by (simp add: pow2_def)

lemma pow2_powr: "pow2 e = 2 powr (real_of_int e)"
  by (simp add: pow2_def powr_realpow [symmetric] powr_minus divide_simps)

lemma pow2_mono: "a \<le> b \<Longrightarrow> pow2 a \<le> pow2 b"
  by (simp add: pow2_powr)

lemma binary64_error:
  assumes "0 \<le> x" and "x \<le> 100"
  shows "\<bar>binary64 x - x\<bar> \<le> 1 / 2 ^ 47"
proof (cases "x = 0")
  case True
  then show ?thesis by (simp add: binary64_def)
next
  case False
  define u where "u = pow2 (exponent \<bar>x\<bar> - 52)"
  have pos: "0 < x" using assms False by simp
  have up: "0 < u" by (simp add: u_def pow2_pos)
  have "exponent \<bar>x\<bar> - 52 \<le> - 46" using exponent_le_6 [of x] pos assms by simp
  then have "u \<le> pow2 (- 46)" unfolding u_def by (rule pow2_mono)
  then have ule: "u \<le> 1 / 2 ^ 46" by (simp add: pow2_def)
  have eq: "binary64 x = of_int (roundTiesToEven (x / u)) * u"
    using pos by (simp add: binary64_def u_def Let_def)
  have "binary64 x - x = (of_int (roundTiesToEven (x / u)) - x / u) * u"
    using up by (simp add: eq field_simps)
  then have "\<bar>binary64 x - x\<bar> = \<bar>of_int (roundTiesToEven (x / u)) - x / u\<bar> * u"
    using up by (simp add: abs_mult)
  also have "\<dots> \<le> 1 / 2 * u"
    using roundTiesToEven_error [of "x / u"] up by (intro mult_right_mono) simp_all
  also have "\<dots> \<le> 1 / 2 * (1 / 2 ^ 46)" using ule by simp
  finally show ?thesis by simp
qed

lemma percent_error:
  assumes "0 \<le> score" and "score \<le> 1"
  shows "\<bar>of_int (Math_round (binary64 (score * 100))) - score * 100\<bar> \<le> 1 / 2 + 1 / 2 ^ 47"
proof -
  have e: "\<bar>binary64 (score * 100) - score * 100\<bar> \<le> 1 / 2 ^ 47"
    using assms by (intro binary64_error) simp_all
  have "\<bar>of_int (Math_round (binary64 (score * 100))) - binary64 (score * 100)\<bar> \<le> 1 / 2"
    unfolding Math_round_def by linarith
  then show ?thesis using e by linarith
qed

lemmas double_eval =
  binary64_def exponent_def roundTiesToEven_def pow2_def halvings.simps doublings.simps
  Math_round_def showInt_def digits.simps Let_def

text \<open>
  The double product can carry a percentage over a half that the exact product stays
  below: the double nearest to 0.015 is smaller than 0.015, its double product with 100
  is 1.5, and the label shows 2.
\<close>

lemma label_at_double_0015:
  "binary64 (15 / 1000) = 8646911284551352 / 2 ^ 59
   \<and> expressionLabel [(''happy'', binary64 (15 / 1000))] = Some ''happy: 2%''"
  by (simp add: expressionLabel_def dominantExpression_def expressionText_def double_eval)

subsection \<open>The label of the dominant expression\<close>

text \<open>
  C4, as the claim states it, fails on a tie: \<open>a[1] > b[1] ? a : b\<close> keeps \<open>a\<close> only when it
  is strictly greater, so of two equal scores the later entry wins. With \<open>happy\<close> before
  \<open>sad\<close>, both at one half, the label names \<open>sad\<close>.
\<close>

theorem label_tie_counterexample:
  "expressionLabel [(''happy'', 1 / 2), (''sad'', 1 / 2)] = Some ''sad: 50%''"
  by (simp add: expressionLabel_def dominantExpression_def expressionText_def double_eval)

text \<open>
  C4, amended. For every non-empty list of entries the dominant entry is an entry of
  maximum confidence, the last such entry in iteration order (no entry before it is
  greater, every entry after it is strictly smaller). With confidences in the interval
  from 0 to 1, the label is its name followed by \<open>Math.round\<close> of the double product of
  its confidence and 100, and a percent sign; that integer is the percentage rounded to
  the nearest integer up to the rounding of the product, which is at most \<open>2^-47\<close>. For
  the doubles written 0.82, 0.10 and 0.08 the label is \<open>happy: 82%\<close>.
\<close>

theorem label_names_last_maximum:
  "(entries \<noteq> [] \<longrightarrow>
      (\<exists>before name score after.
          entries = before @ (name, score) # after
        \<and> (\<forall>e\<in>set before. snd e \<le> score) \<and> (\<forall>e\<in>set after. snd e < score)
        \<and> dominantExpression entries = Some (name, score)
        \<and> ((\<forall>e\<in>set entries. 0 \<le> snd e \<and> snd e \<le> 1) \<longrightarrow>
              expressionLabel entries
                = Some (name @ '': '' @ showInt (Math_round (binary64 (score * 100))) @ ''%'')
            \<and> \<bar>of_int (Math_round (binary64 (score * 100))) - score * 100\<bar>
                \<le> 1 / 2 + 1 / 2 ^ 47)))
   \<and> expressionLabel
        [(''happy'', binary64 0.82), (''neutral'', binary64 0.10), (''sad'', binary64 0.08)]
        = Some ''happy: 82%''"
proof (intro conjI impI)
  assume "entries \<noteq> []"
  then obtain before d after where
    split: "entries = before @ d # after" and
    le: "\<forall>e\<in>set before. snd e \<le> snd d" and
    less: "\<forall>e\<in>set after. snd e < snd d" and
    dom: "dominantExpression entries = Some d"
    using dominantExpression_last_maximum by blast
  have label: "expressionLabel entries
      = Some (fst d @ '': '' @ showInt (Math_round (binary64 (snd d * 100))) @ ''%'')"
    using dom by (simp add: expressionLabel_def expressionText_def)
  have "d \<in> set entries" using split by simp
  then have range: "(\<forall>e\<in>set entries. 0 \<le> snd e \<and> snd e \<le> 1) \<longrightarrow>
      \<bar>of_int (Math_round (binary64 (snd d * 100))) - snd d * 100\<bar> \<le> 1 / 2 + 1 / 2 ^ 47"
    using percent_error [of "snd d"] by blast
  have "entries = before @ (fst d, snd d) # after
        \<and> (\<forall>e\<in>set before. snd e \<le> snd d) \<and> (\<forall>e\<in>set after. snd e < snd d)
        \<and> dominantExpression entries = Some (fst d, snd d)
        \<and> ((\<forall>e\<in>set entries. 0 \<le> snd e \<and> snd e \<le> 1) \<longrightarrow>
              expressionLabel entries
                = Some (fst d @ '': '' @ showInt (Math_round (binary64 (snd d * 100))) @ ''%'')
            \<and> \<bar>of_int (Math_round (binary64 (snd d * 100))) - snd d * 100\<bar>
                \<le> 1 / 2 + 1 / 2 ^ 47)"
    using split le less dom label range by simp
  then show "\<exists>before name score after.
          entries = before @ (name, score) # after
        \<and> (\<forall>e\<in>set before. snd e \<le> score) \<and> (\<forall>e\<in>set after. snd e < score)
        \<and> dominantExpression entries = Some (name, score)
        \<and> ((\<forall>e\<in>set entries. 0 \<le> snd e \<and> snd e \<le> 1) \<longrightarrow>
              expressionLabel entries
                = Some (name @ '': '' @ showInt (Math_round (binary64 (score * 100))) @ ''%'')
            \<and> \<bar>of_int (Math_round (binary64 (score * 100))) - score * 100\<bar>
                \<le> 1 / 2 + 1 / 2 ^ 47)"
    by (intro exI)
next
  show "expressionLabel
        [(''happy'', binary64 0.82), (''neutral'', binary64 0.10), (''sad'', binary64 0.08)]
        = Some ''happy: 82%''"
    by (simp add: expressionLabel_def dominantExpression_def expressionText_def double_eval)
qed

theorem label_names_last_maximum_witness:
  "[(''happy'', 1 / 2 :: real), (''sad'', 1 / 2)] \<noteq> []
   \<and> (0 :: real) \<le> 1 / 2 \<and> (1 / 2 :: real) \<le> 1
   \<and> dominantExpression [(''happy'', 1 / 2), (''sad'', 1 / 2)] = Some (''sad'', 1 / 2)
   \<and> expressionLabel [(''happy'', 1 / 2), (''sad'', 1 / 2)] = Some ''sad: 50%''
   \<and> \<bar>of_int (Math_round (binary64 (1 / 2 * 100))) - 1 / 2 * 100\<bar> \<le> (1 / 2 + 1 / 2 ^ 47 :: real)"
proof -
  have nonempty: "[(''happy'', 1 / 2 :: real), (''sad'', 1 / 2)] \<noteq> []" by simp
  have range: "\<forall>e\<in>set [(''happy'', 1 / 2 :: real), (''sad'', 1 / 2)]. 0 \<le> snd e \<and> snd e \<le> 1"
    by simp
  have dom: "dominantExpression [(''happy'', 1 / 2), (''sad'', 1 / 2)] = Some (''sad'', 1 / 2)"
    by (simp add: dominantExpression_def)
  from label_names_last_maximum [of "[(''happy'', 1 / 2), (''sad'', 1 / 2)]"] nonempty
  obtain before name score after where
    d: "dominantExpression [(''happy'', 1 / 2), (''sad'', 1 / 2)] = Some (name, score)" and
    l: "(\<forall>e\<in>set [(''happy'', 1 / 2 :: real), (''sad'', 1 / 2)]. 0 \<le> snd e \<and> snd e \<le> 1) \<longrightarrow>
          expressionLabel [(''happy'', 1 / 2), (''sad'', 1 / 2)]
            = Some (name @ '': '' @ showInt (Math_round (binary64 (score * 100))) @ ''%'')
        \<and> \<bar>of_int (Math_round (binary64 (score * 100))) - score * 100\<bar> \<le> 1 / 2 + 1 / 2 ^ 47"
    by blast
  have who: "name = ''sad''" "score = 1 / 2" using d dom by simp_all
  have "expressionLabel [(''happy'', 1 / 2), (''sad'', 1 / 2)]
            = Some (''sad'' @ '': '' @ showInt (Math_round (binary64 (1 / 2 * 100))) @ ''%'')
        \<and> \<bar>of_int (Math_round (binary64 (1 / 2 * 100))) - 1 / 2 * 100\<bar> \<le> (1 / 2 + 1 / 2 ^ 47 :: real)"
    using l range unfolding who by blast
  moreover have "showInt (Math_round (binary64 (1 / 2 * 100))) = ''50''"
    by (simp add: double_eval)
  ultimately show ?thesis using dom by simp
qed

subsection \<open>The order of model loading, camera, playback and detection\<close>

lemma precededBy_append:
  "precededBy a b (xs @ ys) = (precededBy a b xs \<and> (a \<in> set xs \<or> precededBy a b ys))"
  by (induction xs) auto

lemmas fd_defs =
  andThen_def loadModels_settle_def webcamEffect_def loopEffect_def loopCleanup_def
  fd_startVideo_settle_def handleVideoPlay_def detectExpressions_begin_def
  detectExpressions_settle_def requestNext_def modelsLoadedLog_def videoPlayingLog_def

lemma fd_inv_mount: "fd_inv (fd_mount v c)"
  by (simp add: fd_inv_def fd_mount_def fd_firstRender_def loadModels_begin_def fd_defs)

lemma fd_inv_step:
  assumes "fd_inv p"
  shows "fd_inv (andThen p (fd_step m e))"
proof (cases p)
  case (Pair s tr)
  show ?thesis
  proof (cases e)
    case (ModelsSettle loaded)
    then show ?thesis using assms Pair
      by (auto simp: fd_inv_def fd_defs precededBy_append Let_def split: option.splits if_splits)
  next
    case (CameraSettle r)
    then show ?thesis using assms Pair
      by (auto simp: fd_inv_def fd_defs precededBy_append Let_def
               split: option.splits if_splits gum_result.splits)
  next
    case VideoPlays
    then show ?thesis using assms Pair
      by (auto simp: fd_inv_def fd_defs precededBy_append Let_def split: option.splits if_splits)
  next
    case (DetectionSettles result)
    then show ?thesis using assms Pair
      by (auto simp: fd_inv_def fd_defs precededBy_append Let_def
               split: option.splits if_splits prod.splits painting.splits)
  next
    case AnimationFrame
    then show ?thesis using assms Pair
      by (auto simp: fd_inv_def fd_defs precededBy_append Let_def split: option.splits if_splits)
  qed
qed

lemma fd_inv_run: "fd_inv p \<Longrightarrow> fd_inv (fd_run m es p)"
  by (induction es arbitrary: p) (simp_all add: fd_inv_step)

text \<open>
  C3. After any sequence of events of the mounted detection page: while the models are not
  loaded (still loading, or failed) no detection pass has been started and the camera has
  not been requested; while the video has not reported playback no detection pass has been
  started; and in the trace of calls every camera request and every detection pass comes
  after the message that the models are loaded, and every detection pass after the message
  that the video plays.
\<close>

theorem detection_waits_for_models_and_playback:
  "(\<not> modelsLoaded (fst (fd_run m events (fd_mount v c)))
      \<longrightarrow> DetectSingleFace \<notin> set (snd (fd_run m events (fd_mount v c)))
        \<and> GetUserMedia 640 480 \<notin> set (snd (fd_run m events (fd_mount v c))))
   \<and> (\<not> isVideoPlaying (fst (fd_run m events (fd_mount v c)))
      \<longrightarrow> DetectSingleFace \<notin> set (snd (fd_run m events (fd_mount v c))))
   \<and> precededBy modelsLoadedLog (GetUserMedia 640 480) (snd (fd_run m events (fd_mount v c)))
   \<and> precededBy modelsLoadedLog DetectSingleFace (snd (fd_run m events (fd_mount v c)))
   \<and> precededBy videoPlayingLog DetectSingleFace (snd (fd_run m events (fd_mount v c)))"
  using fd_inv_run [OF fd_inv_mount, of m events v c]
  by (cases "fd_run m events (fd_mount v c)") (simp add: fd_inv_def)

lemmas fd_eval =
  fd_mount_def fd_firstRender_def loadModels_begin_def fd_defs paintDetection_def setSize_def
  orDefault_def video0_def canvas0_def face0_def measureText0_def dominantExpression_def
  expressionText_def double_eval

theorem detection_waits_for_models_and_playback_witness:
  "\<not> modelsLoaded (fst (fd_run measureText0 [ModelsSettle False, VideoPlays, AnimationFrame]
                          (fd_mount video0 canvas0)))
   \<and> DetectSingleFace \<notin> set (snd (fd_run measureText0 [ModelsSettle False, VideoPlays, AnimationFrame]
                                   (fd_mount video0 canvas0)))
   \<and> GetUserMedia 640 480 \<notin> set (snd (fd_run measureText0 [ModelsSettle False, VideoPlays, AnimationFrame]
                                       (fd_mount video0 canvas0)))
   \<and> \<not> isVideoPlaying (fst (fd_run measureText0 [ModelsSettle True, CameraSettle (Granted (MediaStream [1]))]
                            (fd_mount video0 canvas0)))
   \<and> DetectSingleFace \<notin> set (snd (fd_run measureText0 [ModelsSettle True, CameraSettle (Granted (MediaStream [1]))]
                                   (fd_mount video0 canvas0)))"
proof -
  have failed: "\<not> modelsLoaded (fst (fd_run measureText0 [ModelsSettle False, VideoPlays, AnimationFrame]
                          (fd_mount video0 canvas0)))"
    by (simp add: fd_eval)
  have silent: "\<not> isVideoPlaying (fst (fd_run measureText0 [ModelsSettle True, CameraSettle (Granted (MediaStream [1]))]
                            (fd_mount video0 canvas0)))"
    by (simp add: fd_eval)
  show ?thesis
    using failed silent
      detection_waits_for_models_and_playback
        [of measureText0 "[ModelsSettle False, VideoPlays, AnimationFrame]" video0 canvas0]
      detection_waits_for_models_and_playback
        [of measureText0 "[ModelsSettle True, CameraSettle (Granted (MediaStream [1]))]" video0 canvas0]
    by blast
qed

subsection \<open>The overlay when no face is found\<close>

text \<open>
  C7 fails after a cycle that found a face. The branch for a missing detection only logs:
  it leaves the canvas as it is. In the run below a face is found in the first pass and
  none in the second; after the second pass the overlay still shows the box and the label
  of the first.
\<close>

theorem stale_overlay_after_no_face:
  "canvasRef (fst (detectExpressions_settle m None s)) = canvasRef s
   \<and> map_option content
       (canvasRef (fst (fd_run measureText0
          [ModelsSettle True, CameraSettle (Granted (MediaStream [1])), VideoPlays,
           DetectionSettles (Some face0), AnimationFrame, DetectionSettles None]
          (fd_mount video0 canvas0))))
     = Some [DetectionBox (box face0) 640 480,
             StrokeText ''happy: 82%'' 260 50, FillText ''happy: 82%'' 260 50]"
proof
  show "canvasRef (fst (detectExpressions_settle m None s)) = canvasRef s"
    by (simp add: detectExpressions_settle_def andThen_def requestNext_def)
next
  show "map_option content
       (canvasRef (fst (fd_run measureText0
          [ModelsSettle True, CameraSettle (Granted (MediaStream [1])), VideoPlays,
           DetectionSettles (Some face0), AnimationFrame, DetectionSettles None]
          (fd_mount video0 canvas0))))
     = Some [DetectionBox (box face0) 640 480,
             StrokeText ''happy: 82%'' 260 50, FillText ''happy: 82%'' 260 50]"
    by (simp add: fd_eval)
qed

end
